theory Spec2Isabelle
  imports Complex_Main
begin

section \<open>JavaScript numbers\<close>

text \<open>
  The solver computes with JavaScript numbers. A number is modelled as a finite real or one
  of the three special values of IEEE arithmetic. The special values follow the IEEE rules
  (\<open>0/0\<close>, \<open>\<infinity> - \<infinity>\<close> and \<open>0 \<sqdot> \<infinity>\<close> are NaN, NaN is absorbing and compares false with
  everything). Finite results are exact: rounding, underflow to zero, the overflow of an
  operation on finite doubles and the sign of zero are not modelled (a zero divisor is taken
  as \<open>+0\<close>, and a counting loop with a finite bound ends). The store of a number into a
  \<open>Float32Array\<close> is modelled: it keeps a value of the 32-bit range and turns a larger one into
  an infinity.

  The fields of \<open>GridParams\<close>, \<open>Material\<close>, \<open>Source\<close> and \<open>Obstacle\<close> are finite reals, as
  the data model has them, and the cell counts are naturals. Hence every cell index and every
  loop bound of the solver is an integer; the values stored in the arrays are numbers, since
  a division by zero (a zero permittivity, a zero spatial step) makes them infinite or NaN.

  The embedding covers the constructor, the coefficient compiler, the PML profile, the time
  step with all eight source kinds, the obstacle rasterizer, \<open>reset\<close> and the accessors the
  properties below speak about; \<open>updateSource\<close> and the two diagnostics are left out.
\<close>

datatype number = Fin real | PInf | NInf | NaN

fun sg :: "number \<Rightarrow> real" where
  "sg (Fin a) = sgn a"
| "sg PInf = 1"
| "sg NInf = - 1"
| "sg NaN = 0"

definition signed_inf :: "real \<Rightarrow> number" where
  "signed_inf s = (if s = 0 then NaN else if 0 < s then PInf else NInf)"

instantiation number :: "{zero, one, plus, uminus, minus, times, inverse, ord}"
begin

definition zero_number :: number where
  "zero_number = Fin 0"

definition one_number :: number where
  "one_number = Fin 1"

fun plus_number :: "number \<Rightarrow> number \<Rightarrow> number" where
  "plus_number (Fin a) (Fin b) = Fin (a + b)"
| "plus_number NaN _ = NaN"
| "plus_number _ NaN = NaN"
| "plus_number PInf NInf = NaN"
| "plus_number NInf PInf = NaN"
| "plus_number PInf _ = PInf"
| "plus_number _ PInf = PInf"
| "plus_number NInf _ = NInf"
| "plus_number _ NInf = NInf"

fun uminus_number :: "number \<Rightarrow> number" where
  "uminus_number (Fin a) = Fin (- a)"
| "uminus_number PInf = NInf"
| "uminus_number NInf = PInf"
| "uminus_number NaN = NaN"

definition minus_number :: "number \<Rightarrow> number \<Rightarrow> number" where
  "minus_number x y = x + (- y)"

fun times_number :: "number \<Rightarrow> number \<Rightarrow> number" where
  "times_number (Fin a) (Fin b) = Fin (a * b)"
| "times_number x y = signed_inf (sg x * sg y)"

fun divide_number :: "number \<Rightarrow> number \<Rightarrow> number" where
  "divide_number (Fin a) (Fin b) = (if b = 0 then signed_inf (sgn a) else Fin (a / b))"
| "divide_number NaN _ = NaN"
| "divide_number _ NaN = NaN"
| "divide_number (Fin a) _ = Fin 0"
| "divide_number x (Fin b) = signed_inf (sg x * (if b < 0 then - 1 else 1))"
| "divide_number _ _ = NaN"

definition inverse_number :: "number \<Rightarrow> number" where
  "inverse_number x = divide (Fin 1) x"

fun less_number :: "number \<Rightarrow> number \<Rightarrow> bool" where
  "less_number (Fin a) (Fin b) = (a < b)"
| "less_number NaN _ = False"
| "less_number _ NaN = False"
| "less_number _ NInf = False"
| "less_number PInf _ = False"
| "less_number NInf _ = True"
| "less_number _ PInf = True"

fun less_eq_number :: "number \<Rightarrow> number \<Rightarrow> bool" where
  "less_eq_number (Fin a) (Fin b) = (a \<le> b)"
| "less_eq_number NaN _ = False"
| "less_eq_number _ NaN = False"
| "less_eq_number NInf _ = True"
| "less_eq_number _ PInf = True"
| "less_eq_number _ _ = False"

instance ..

end

definition N :: "nat \<Rightarrow> number" where
  \<comment> \<open>a loop counter or cell count used as a number\<close>
  "N n = Fin (real n)"

definition Z :: "int \<Rightarrow> number" where
  \<comment> \<open>an integer offset or cell coordinate used as a number\<close>
  "Z k = Fin (of_int k)"

fun is_fin :: "number \<Rightarrow> bool" where
  "is_fin (Fin a) = True"
| "is_fin _ = False"

subsection \<open>The \<open>Math\<close> functions the solver calls\<close>

fun Math_sin :: "number \<Rightarrow> number" where
  "Math_sin (Fin a) = Fin (sin a)"
| "Math_sin _ = NaN"

fun Math_cos :: "number \<Rightarrow> number" where
  "Math_cos (Fin a) = Fin (cos a)"
| "Math_cos _ = NaN"

fun Math_exp :: "number \<Rightarrow> number" where
  "Math_exp (Fin a) = Fin (exp a)"
| "Math_exp PInf = PInf"
| "Math_exp NInf = Fin 0"
| "Math_exp NaN = NaN"

fun Math_sqrt :: "number \<Rightarrow> number" where
  "Math_sqrt (Fin a) = (if a < 0 then NaN else Fin (sqrt a))"
| "Math_sqrt PInf = PInf"
| "Math_sqrt _ = NaN"

fun Math_log :: "number \<Rightarrow> number" where
  "Math_log (Fin a) = (if a < 0 then NaN else if a = 0 then NInf else Fin (ln a))"
| "Math_log PInf = PInf"
| "Math_log _ = NaN"

fun Math_pow :: "number \<Rightarrow> nat \<Rightarrow> number" where
  \<comment> \<open>\<open>Math.pow\<close> at the integer exponents 2, 3 and 5 the solver uses\<close>
  "Math_pow x 0 = Fin 1"
| "Math_pow (Fin a) n = Fin (a ^ n)"
| "Math_pow PInf n = PInf"
| "Math_pow NInf n = (if even n then PInf else NInf)"
| "Math_pow NaN n = NaN"

fun Math_max :: "number \<Rightarrow> number \<Rightarrow> number" where
  "Math_max NaN _ = NaN"
| "Math_max _ NaN = NaN"
| "Math_max x y = (if x < y then y else x)"

fun Math_min :: "number \<Rightarrow> number \<Rightarrow> number" where
  "Math_min NaN _ = NaN"
| "Math_min _ NaN = NaN"
| "Math_min x y = (if y < x then y else x)"

definition Math_PI :: number where
  "Math_PI = Fin pi"

definition or_default :: "real option \<Rightarrow> real \<Rightarrow> real" where
  \<comment> \<open>\<open>field || d\<close> for an optional field: \<open>undefined\<close> and 0 give \<open>d\<close>\<close>
  "or_default v d = (case v of None \<Rightarrow> d | Some a \<Rightarrow> if a = 0 then d else a)"

definition or_zero :: "number option \<Rightarrow> number" where
  \<comment> \<open>\<open>arr[idx] || 0\<close>: \<open>undefined\<close>, 0 and NaN give 0\<close>
  "or_zero v = (case v of None \<Rightarrow> Fin 0 | Some a \<Rightarrow> if a = Fin 0 \<or> a = NaN then Fin 0 else a)"

subsection \<open>Typed arrays\<close>

text \<open>
  A \<open>Float32Array\<close> is a list of numbers of fixed length. A read outside the array gives
  \<open>undefined\<close>, which is NaN in arithmetic; a write outside the array is ignored. A write
  converts the number to 32 bits, as \<open>Math.fround\<close> does: a finite value of magnitude
  \<open>2\<^sup>1\<^sup>2\<^sup>8 - 2\<^sup>1\<^sup>0\<^sup>3\<close> or more becomes an infinity, a smaller one is kept (its rounding is
  not modelled). The constants 0 and 1 are stored as they are.
\<close>

definition float32_limit :: real where
  \<comment> \<open>halfway between the largest 32-bit float and the next power of two\<close>
  "float32_limit = 2 ^ 128 - 2 ^ 103"

fun Math_fround :: "number \<Rightarrow> number" where
  "Math_fround (Fin a) =
     (if float32_limit \<le> a then PInf else if a \<le> - float32_limit then NInf else Fin a)"
| "Math_fround v = v"

declare Math_fround.simps(1) [simp del]

definition rd :: "number list \<Rightarrow> nat \<Rightarrow> number" where
  "rd xs k = (if k < length xs then xs ! k else NaN)"

definition geti :: "number list \<Rightarrow> int \<Rightarrow> number option" where
  \<comment> \<open>\<open>arr[idx]\<close> for an integer \<open>idx\<close>; \<open>None\<close> is \<open>undefined\<close>\<close>
  "geti xs k = (if 0 \<le> k \<and> k < int (length xs) then Some (xs ! nat k) else None)"

definition wri :: "number list \<Rightarrow> int \<Rightarrow> number \<Rightarrow> number list" where
  \<comment> \<open>\<open>arr[idx] = v\<close> for an integer \<open>idx\<close>\<close>
  "wri xs k v = (if 0 \<le> k then xs[nat k := v] else xs)"

definition add_at :: "number list \<Rightarrow> int \<Rightarrow> number \<Rightarrow> number list" where
  \<comment> \<open>\<open>arr[idx] += v\<close> for an integer \<open>idx\<close>\<close>
  "add_at xs k v =
     (case geti xs k of None \<Rightarrow> xs | Some old \<Rightarrow> wri xs k (Math_fround (old + v)))"

section \<open>Data model\<close>

record GridParams =
  nx :: nat
  ny :: nat
  dx :: real
  dy :: real
  dt :: real

record Material =
  epsilon :: real
  mu :: real
  sigma :: real

datatype SourceType =
  Dipole | PlaneWave | Antenna | Gaussian | Wire | PointCharge | Magnet | CurrentLoop

datatype Polarity = N_S | S_N

record Source =
  id' :: string
  type :: SourceType
  x :: real
  y :: real
  frequency :: real
  amplitude :: real
  phase :: real
  width :: "real option"
  length' :: "real option"
  angle :: "real option"
  charge :: "real option"
  current :: "real option"
  polarity :: "Polarity option"

record Obstacle =
  id' :: string
  x :: real
  y :: real
  width :: real
  height :: real
  material :: Material

record FieldSample =
  Ez :: number
  Hx :: number
  Hy :: number

record MaxwellSolver =
  params :: GridParams
  Ez :: "number list"
  Hx :: "number list"
  Hy :: "number list"
  epsilon :: "number list"
  mu :: "number list"
  sigma :: "number list"
  Ca :: "number list"
  Cb :: "number list"
  Da :: "number list"
  Db :: "number list"
  sources :: "Source list"
  obstacles :: "Obstacle list"
  time :: nat

definition eps0 :: number where
  "eps0 = Fin (8854187817 / 10 ^ 21)"

definition mu0 :: number where
  "mu0 = Fin 4 * Math_PI * Fin (1 / 10 ^ 7)"

definition pmlThickness :: nat where
  "pmlThickness = 20"

definition pmlOrder :: nat where
  "pmlOrder = 3"

definition pmlReflection :: number where
  "pmlReflection = Fin (1 / 10 ^ 6)"

section \<open>The solver\<close>

definition for_grid ::
  "nat \<Rightarrow> nat \<Rightarrow> nat \<Rightarrow> nat \<Rightarrow> (nat \<Rightarrow> nat \<Rightarrow> 's \<Rightarrow> 's) \<Rightarrow> 's \<Rightarrow> 's" where
  \<comment> \<open>\<open>for (j = j0; j < j1; j++) for (i = i0; i < i1; i++) body(i, j)\<close>\<close>
  "for_grid j0 j1 i0 i1 body s = fold (\<lambda>j. fold (\<lambda>i. body i j) [i0..<i1]) [j0..<j1] s"

definition for_box ::
  "int \<Rightarrow> int \<Rightarrow> int \<Rightarrow> int \<Rightarrow> (int \<Rightarrow> int \<Rightarrow> 's \<Rightarrow> 's) \<Rightarrow> 's \<Rightarrow> 's" where
  \<comment> \<open>the same loop nest over integer bounds that may be negative\<close>
  "for_box j0 j1 i0 i1 body s = fold (\<lambda>j. fold (\<lambda>i. body i j) [i0..i1 - 1]) [j0..j1 - 1] s"

subsection \<open>Coefficient compiler\<close>

definition coeff_Ca :: "number \<Rightarrow> number \<Rightarrow> number \<Rightarrow> number" where
  "coeff_Ca dt' sig eps =
     (Fin 1 - sig * dt' / (Fin 2 * eps)) / (Fin 1 + sig * dt' / (Fin 2 * eps))"

definition coeff_Cb :: "number \<Rightarrow> number \<Rightarrow> number \<Rightarrow> number" where
  "coeff_Cb dt' sig eps = (dt' / eps) / (Fin 1 + sig * dt' / (Fin 2 * eps))"

definition updateCoefficients_cell :: "nat \<Rightarrow> nat \<Rightarrow> MaxwellSolver \<Rightarrow> MaxwellSolver" where
  "updateCoefficients_cell i j s =
     (let idx = j * nx (params s) + i;
          eps = rd (epsilon s) idx * eps0;
          sig = rd (sigma s) idx;
          mu_val = rd (mu s) idx * mu0
      in s\<lparr>Ca := (Ca s)[idx := Math_fround (coeff_Ca (Fin (dt (params s))) sig eps)],
            Cb := (Cb s)[idx := Math_fround (coeff_Cb (Fin (dt (params s))) sig eps)],
            Da := (Da s)[idx := Fin 1],
            Db := (Db s)[idx := Math_fround (Fin (dt (params s)) / mu_val)]\<rparr>)"

definition updateCoefficients :: "MaxwellSolver \<Rightarrow> MaxwellSolver" where
  "updateCoefficients s =
     for_grid 0 (ny (params s)) 0 (nx (params s)) updateCoefficients_cell s"

subsection \<open>PML profile\<close>

definition pml_thickness :: "GridParams \<Rightarrow> nat" where
  \<comment> \<open>\<open>Math.min(pmlThickness, Math.floor(Math.min(nx, ny) / 4))\<close>\<close>
  "pml_thickness p = min pmlThickness (min (nx p) (ny p) div 4)"

definition eta0 :: number where
  "eta0 = Math_sqrt (mu0 / eps0)"

definition sigmaMax :: "nat \<Rightarrow> real \<Rightarrow> number" where
  \<comment> \<open>\<open>sigmaMaxX\<close> for \<open>d = dx\<close>, \<open>sigmaMaxY\<close> for \<open>d = dy\<close>\<close>
  "sigmaMax thickness d =
     - (N pmlOrder + Fin 1) * Math_log pmlReflection / (Fin 2 * eta0 * N thickness * Fin d)"

definition pml_axis :: "nat \<Rightarrow> nat \<Rightarrow> number \<Rightarrow> nat \<Rightarrow> number" where
  \<comment> \<open>\<open>sigmaX\<close> at column \<open>i\<close> of \<open>n = nx\<close> columns; \<open>sigmaY\<close> likewise for rows\<close>
  "pml_axis thickness n sMax i =
     (if i < thickness then
        (let ratio = (N thickness - N i) / N thickness
         in sMax * Math_pow ratio pmlOrder)
      else if int n - int thickness \<le> int i then
        (let ratio = (N i - (N n - N thickness - Fin 1)) / N thickness
         in sMax * Math_pow (Math_min ratio (Fin 1)) pmlOrder)
      else Fin 0)"

definition pmlSigma :: "GridParams \<Rightarrow> nat \<Rightarrow> nat \<Rightarrow> number" where
  "pmlSigma p i j =
     (let thickness = pml_thickness p
      in pml_axis thickness (nx p) (sigmaMax thickness (dx p)) i
         + pml_axis thickness (ny p) (sigmaMax thickness (dy p)) j)"

definition setupPML_cell :: "nat \<Rightarrow> nat \<Rightarrow> MaxwellSolver \<Rightarrow> MaxwellSolver" where
  "setupPML_cell i j s =
     (let idx = j * nx (params s) + i;
          v = pmlSigma (params s) i j
      in if Fin 0 < v
         then s\<lparr>sigma := (sigma s)[idx := Math_fround (Math_max (rd (sigma s) idx) v)]\<rparr>
         else s)"

definition setupPML :: "MaxwellSolver \<Rightarrow> MaxwellSolver" where
  "setupPML s =
     (if pml_thickness (params s) \<le> 0 then s
      else for_grid 0 (ny (params s)) 0 (nx (params s)) setupPML_cell s)"

subsection \<open>Construction\<close>

definition construct :: "GridParams \<Rightarrow> MaxwellSolver" where
  "construct p =
     (let size = nx p * ny p
      in updateCoefficients (setupPML
           \<lparr>params = p,
            Ez = replicate size (Fin 0), Hx = replicate size (Fin 0), Hy = replicate size (Fin 0),
            epsilon = replicate size (Fin 1), mu = replicate size (Fin 1),
            sigma = replicate size (Fin 0),
            Ca = replicate size (Fin 0), Cb = replicate size (Fin 0),
            Da = replicate size (Fin 0), Db = replicate size (Fin 0),
            sources = [], obstacles = [], time = 0\<rparr>))"

subsection \<open>Field updates\<close>

definition updateHx_cell :: "nat \<Rightarrow> nat \<Rightarrow> MaxwellSolver \<Rightarrow> MaxwellSolver" where
  "updateHx_cell i j s =
     (let idx = j * nx (params s) + i;
          dEz_dy = (rd (Ez s) (idx + nx (params s)) - rd (Ez s) idx) / Fin (dy (params s))
      in s\<lparr>Hx := (Hx s)[idx := Math_fround (rd (Da s) idx * rd (Hx s) idx
                                           - rd (Db s) idx * dEz_dy)]\<rparr>)"

definition updateHy_cell :: "nat \<Rightarrow> nat \<Rightarrow> MaxwellSolver \<Rightarrow> MaxwellSolver" where
  "updateHy_cell i j s =
     (let idx = j * nx (params s) + i;
          dEz_dx = (rd (Ez s) (idx + 1) - rd (Ez s) idx) / Fin (dx (params s))
      in s\<lparr>Hy := (Hy s)[idx := Math_fround (rd (Da s) idx * rd (Hy s) idx
                                           + rd (Db s) idx * dEz_dx)]\<rparr>)"

definition updateH :: "MaxwellSolver \<Rightarrow> MaxwellSolver" where
  \<comment> \<open>the bounds \<open>ny - 1\<close> and \<open>nx - 1\<close> are 0 for an empty grid: no iteration, as in the source\<close>
  "updateH s =
     (let s1 = for_grid 0 (ny (params s) - 1) 0 (nx (params s)) updateHx_cell s
      in for_grid 0 (ny (params s)) 0 (nx (params s) - 1) updateHy_cell s1)"

definition updateE_cell :: "nat \<Rightarrow> nat \<Rightarrow> MaxwellSolver \<Rightarrow> MaxwellSolver" where
  \<comment> \<open>called for \<open>i \<ge> 1\<close> and \<open>j \<ge> 1\<close> only, so \<open>idx - 1\<close> and \<open>idx - nx\<close> do not go below 0\<close>
  "updateE_cell i j s =
     (let idx = j * nx (params s) + i;
          dHy_dx = (rd (Hy s) idx - rd (Hy s) (idx - 1)) / Fin (dx (params s));
          dHx_dy = (rd (Hx s) idx - rd (Hx s) (idx - nx (params s))) / Fin (dy (params s));
          curlH = dHy_dx - dHx_dy
      in s\<lparr>Ez := (Ez s)[idx := Math_fround (rd (Ca s) idx * rd (Ez s) idx
                                           + rd (Cb s) idx * curlH)]\<rparr>)"

definition updateE :: "MaxwellSolver \<Rightarrow> MaxwellSolver" where
  "updateE s = for_grid 1 (ny (params s)) 1 (nx (params s)) updateE_cell s"

subsection \<open>Source injection\<close>

definition in_grid :: "GridParams \<Rightarrow> int \<Rightarrow> int \<Rightarrow> bool" where
  "in_grid p i j = (0 \<le> i \<and> i < int (nx p) \<and> 0 \<le> j \<and> j < int (ny p))"

definition inject :: "int \<Rightarrow> int \<Rightarrow> number \<Rightarrow> MaxwellSolver \<Rightarrow> MaxwellSolver" where
  \<comment> \<open>\<open>if (in bounds) this.Ez[j * nx + i] += v\<close>\<close>
  "inject i j v s =
     (if in_grid (params s) i j
      then s\<lparr>Ez := add_at (Ez s) (j * int (nx (params s)) + i) v\<rparr> else s)"

definition carrier :: "Source \<Rightarrow> number \<Rightarrow> number" where
  \<comment> \<open>\<open>Math.sin(omega * freq * t + source.phase)\<close> with \<open>omega = 2 * Math.PI\<close>\<close>
  "carrier src t = Math_sin (Fin 2 * Math_PI * Fin (frequency src) * t + Fin (phase src))"

definition radius :: "int \<Rightarrow> int \<Rightarrow> number" where
  \<comment> \<open>\<open>Math.sqrt(di * di + dj * dj) + 1e-6\<close>\<close>
  "radius di dj = Math_sqrt (Z (di * di + dj * dj)) + Fin (1 / 10 ^ 6)"

definition applySource :: "Source \<Rightarrow> MaxwellSolver \<Rightarrow> MaxwellSolver" where
  \<comment> \<open>the body of the loop over the sources; \<open>for (k = 0; k < L; k++)\<close> with a finite \<open>L\<close> runs
      for \<open>k = 0, \<dots>, \<lceil>L\<rceil> - 1\<close>, and the offset loops run from \<open>-10\<close> to \<open>10\<close> and \<open>-15\<close> to \<open>15\<close>\<close>
  "applySource src s =
     (let p = params s;
          i = \<lfloor>Source.x src\<rfloor>;
          j = \<lfloor>Source.y src\<rfloor>
      in if i < 0 \<or> int (nx p) \<le> i \<or> j < 0 \<or> int (ny p) \<le> j then s
         else
          (let idx = j * int (nx p) + i;
               t = N (time s) * Fin (dt p);
               freq = Fin (frequency src)
           in case type src of
                Dipole \<Rightarrow> s\<lparr>Ez := add_at (Ez s) idx (Fin (amplitude src) * carrier src t)\<rparr>
              | Antenna \<Rightarrow> s\<lparr>Ez := add_at (Ez s) idx (Fin (amplitude src) * carrier src t)\<rparr>
              | PlaneWave \<Rightarrow> s\<lparr>Ez := add_at (Ez s) idx (Fin (amplitude src) * carrier src t)\<rparr>
              | Gaussian \<Rightarrow>
                  (let t0 = Fin 3 / freq;
                       tau = Fin 1 / freq;
                       envelope = Math_exp (- Math_pow ((t - t0) / tau) 2)
                   in s\<lparr>Ez := add_at (Ez s) idx
                                 (Fin (amplitude src) * envelope * carrier src t)\<rparr>)
              | Wire \<Rightarrow>
                  (let wireLength = or_default (length' src) 20;
                       wireAngle = or_default (angle src) 0;
                       current' = or_default (current src) 1
                   in fold (\<lambda>k. inject \<lfloor>of_int i + real k * cos wireAngle\<rfloor>
                                        \<lfloor>of_int j + real k * sin wireAngle\<rfloor>
                                        (Fin current' * carrier src t * Fin (amplitude src)
                                         * Fin (1 / 2)))
                        [0..<nat \<lceil>wireLength\<rceil>] s)
              | PointCharge \<Rightarrow>
                  (let charge' = or_default (charge src) (1 / 10 ^ 9);
                       oscillation = carrier src t
                   in for_box (- 10) 11 (- 10) 11
                        (\<lambda>di dj. inject (i + di) (j + dj)
                           (let r = radius di dj;
                                fieldStrength = (Fin charge' / (r * r)) * oscillation
                            in fieldStrength * Fin (amplitude src))) s)
              | Magnet \<Rightarrow>
                  (let magnetStrength = Fin (amplitude src);
                       magnetAngle = Fin (or_default (angle src) 0);
                       polarity' = (if polarity src = Some N_S then Fin 1 else Fin (- 1))
                   in for_box (- 15) 16 (- 15) 16
                        (\<lambda>di dj. inject (i + di) (j + dj)
                           (let r = radius di dj;
                                dx_rot = Z di * Math_cos magnetAngle - Z dj * Math_sin magnetAngle;
                                dy_rot = Z di * Math_sin magnetAngle + Z dj * Math_cos magnetAngle;
                                dipoleField = polarity' * magnetStrength
                                              * (Fin 3 * dx_rot * dy_rot) / Math_pow r 5
                            in dipoleField * carrier src t)) s)
              | CurrentLoop \<Rightarrow>
                  (let loopRadius = or_default (Source.width src) 10;
                       loopCurrent = or_default (current src) 1;
                       numPoints = \<lfloor>2 * pi * loopRadius\<rfloor>
                   in fold (\<lambda>k. let theta = (2 * pi * real k) / of_int numPoints
                                 in inject \<lfloor>of_int i + loopRadius * cos theta\<rfloor>
                                           \<lfloor>of_int j + loopRadius * sin theta\<rfloor>
                                           (Fin loopCurrent * carrier src t * Fin (amplitude src)
                                            * Fin (3 / 10)))
                        [0..<nat numPoints] s)))"

definition applySources :: "MaxwellSolver \<Rightarrow> MaxwellSolver" where
  "applySources s = fold applySource (sources s) s"

subsection \<open>Boundary enforcement and the time step\<close>

definition applyBoundaries :: "MaxwellSolver \<Rightarrow> MaxwellSolver" where
  "applyBoundaries s =
     (let n = int (nx (params s)); m = int (ny (params s));
          s1 = fold (\<lambda>j s. s\<lparr>Ez := wri (wri (Ez s) (int j * n) (Fin 0))
                                       (int j * n + n - 1) (Fin 0)\<rparr>)
                 [0..<ny (params s)] s
      in fold (\<lambda>i s. s\<lparr>Ez := wri (wri (Ez s) (int i) (Fin 0))
                                  ((m - 1) * n + int i) (Fin 0)\<rparr>)
           [0..<nx (params s)] s1)"

definition step :: "MaxwellSolver \<Rightarrow> MaxwellSolver" where
  "step s =
     (let s1 = updateH s;
          s2 = applySources s1;
          s3 = updateE s2;
          s4 = applyBoundaries s3
      in s4\<lparr>time := time s4 + 1\<rparr>)"

fun run :: "nat \<Rightarrow> MaxwellSolver \<Rightarrow> MaxwellSolver" where
  "run 0 s = s"
| "run (Suc n) s = run n (step s)"

subsection \<open>Sources and obstacles\<close>

definition addSource :: "Source \<Rightarrow> MaxwellSolver \<Rightarrow> MaxwellSolver" where
  "addSource src s = s\<lparr>sources := sources s @ [src]\<rparr>"

definition removeSource :: "string \<Rightarrow> MaxwellSolver \<Rightarrow> MaxwellSolver" where
  "removeSource i s = s\<lparr>sources := filter (\<lambda>src. Source.id' src \<noteq> i) (sources s)\<rparr>"

definition paint :: "Material \<Rightarrow> int \<Rightarrow> int \<Rightarrow> MaxwellSolver \<Rightarrow> MaxwellSolver" where
  \<comment> \<open>the body of the rasterizer loops: one cell set to a material, if it is in the grid\<close>
  "paint m i j s =
     (if in_grid (params s) i j then
        (let idx = j * int (nx (params s)) + i
         in s\<lparr>epsilon := wri (epsilon s) idx (Math_fround (Fin (Material.epsilon m))),
               mu := wri (mu s) idx (Math_fround (Fin (Material.mu m))),
               sigma := wri (sigma s) idx (Math_fround (Fin (Material.sigma m)))\<rparr>)
      else s)"

definition vacuum :: Material where
  "vacuum = \<lparr>Material.epsilon = 1, Material.mu = 1, Material.sigma = 0\<rparr>"

definition rasterize :: "Obstacle \<Rightarrow> Material \<Rightarrow> MaxwellSolver \<Rightarrow> MaxwellSolver" where
  "rasterize ob m s =
     (let x1 = \<lfloor>Obstacle.x ob\<rfloor>;
          y1 = \<lfloor>Obstacle.y ob\<rfloor>;
          x2 = \<lfloor>Obstacle.x ob + Obstacle.width ob\<rfloor>;
          y2 = \<lfloor>Obstacle.y ob + height ob\<rfloor>
      in for_box y1 y2 x1 x2 (paint m) s)"

definition applyObstacle :: "Obstacle \<Rightarrow> MaxwellSolver \<Rightarrow> MaxwellSolver" where
  "applyObstacle ob s = rasterize ob (material ob) s"

definition removeObstacleMaterial :: "Obstacle \<Rightarrow> MaxwellSolver \<Rightarrow> MaxwellSolver" where
  "removeObstacleMaterial ob s = rasterize ob vacuum s"

definition addObstacle :: "Obstacle \<Rightarrow> MaxwellSolver \<Rightarrow> MaxwellSolver" where
  "addObstacle ob s =
     updateCoefficients (setupPML (applyObstacle ob (s\<lparr>obstacles := obstacles s @ [ob]\<rparr>)))"

definition removeObstacle :: "string \<Rightarrow> MaxwellSolver \<Rightarrow> MaxwellSolver" where
  "removeObstacle i s =
     (case find (\<lambda>ob. Obstacle.id' ob = i) (obstacles s) of
        None \<Rightarrow> s
      | Some ob \<Rightarrow>
          updateCoefficients (setupPML
            ((removeObstacleMaterial ob s)
               \<lparr>obstacles := filter (\<lambda>ob. Obstacle.id' ob \<noteq> i) (obstacles s)\<rparr>)))"

subsection \<open>Reset and accessors\<close>

definition reset :: "MaxwellSolver \<Rightarrow> MaxwellSolver" where
  "reset s =
     setupPML (s\<lparr>Ez := map (\<lambda>_. Fin 0) (Ez s), Hx := map (\<lambda>_. Fin 0) (Hx s),
                 Hy := map (\<lambda>_. Fin 0) (Hy s), time := 0\<rparr>)"

definition getFieldAt :: "MaxwellSolver \<Rightarrow> real \<Rightarrow> real \<Rightarrow> FieldSample" where
  "getFieldAt s x' y' =
     (let i = \<lfloor>x'\<rfloor>;
          j = \<lfloor>y'\<rfloor>;
          idx = j * int (nx (params s)) + i
      in \<lparr>FieldSample.Ez = or_zero (geti (Ez s) idx),
          FieldSample.Hx = or_zero (geti (Hx s) idx),
          FieldSample.Hy = or_zero (geti (Hy s) idx)\<rparr>)"

definition getTime :: "MaxwellSolver \<Rightarrow> number" where
  "getTime s = N (time s) * Fin (dt (params s))"

definition getSources :: "MaxwellSolver \<Rightarrow> Source list" where
  "getSources s = sources s"

definition getObstacles :: "MaxwellSolver \<Rightarrow> Obstacle list" where
  "getObstacles s = obstacles s"

section \<open>Properties\<close>

text \<open>
  \<open>changes_fields s s'\<close>: the state \<open>s'\<close> differs from \<open>s\<close> in the contents of the field arrays
  only.
\<close>

definition changes_fields :: "MaxwellSolver \<Rightarrow> MaxwellSolver \<Rightarrow> bool" where
  "changes_fields s s' \<longleftrightarrow>
     params s' = params s \<and> epsilon s' = epsilon s \<and> mu s' = mu s \<and> sigma s' = sigma s \<and>
     Ca s' = Ca s \<and> Cb s' = Cb s \<and> Da s' = Da s \<and> Db s' = Db s \<and>
     sources s' = sources s \<and> obstacles s' = obstacles s \<and> time s' = time s \<and>
     length (Ez s') = length (Ez s) \<and> length (Hx s') = length (Hx s) \<and>
     length (Hy s') = length (Hy s)"

text \<open>
  \<open>well_formed s\<close>: every array has one entry per cell, as the constructor allocates them.
  Every operation keeps it.
\<close>

definition well_formed :: "MaxwellSolver \<Rightarrow> bool" where
  "well_formed s \<longleftrightarrow>
     (let size = nx (params s) * ny (params s)
      in length (Ez s) = size \<and> length (Hx s) = size \<and> length (Hy s) = size \<and>
         length (epsilon s) = size \<and> length (mu s) = size \<and> length (sigma s) = size \<and>
         length (Ca s) = size \<and> length (Cb s) = size \<and> length (Da s) = size \<and>
         length (Db s) = size)"

definition changes_sigma :: "MaxwellSolver \<Rightarrow> MaxwellSolver \<Rightarrow> bool" where
  "changes_sigma s s' \<longleftrightarrow>
     params s' = params s \<and> Ez s' = Ez s \<and> Hx s' = Hx s \<and> Hy s' = Hy s \<and>
     epsilon s' = epsilon s \<and> mu s' = mu s \<and>
     Ca s' = Ca s \<and> Cb s' = Cb s \<and> Da s' = Da s \<and> Db s' = Db s \<and>
     sources s' = sources s \<and> obstacles s' = obstacles s \<and> time s' = time s \<and>
     length (sigma s') = length (sigma s)"

definition changes_coefficients :: "MaxwellSolver \<Rightarrow> MaxwellSolver \<Rightarrow> bool" where
  "changes_coefficients s s' \<longleftrightarrow>
     params s' = params s \<and> Ez s' = Ez s \<and> Hx s' = Hx s \<and> Hy s' = Hy s \<and>
     epsilon s' = epsilon s \<and> mu s' = mu s \<and> sigma s' = sigma s \<and>
     sources s' = sources s \<and> obstacles s' = obstacles s \<and> time s' = time s \<and>
     length (Ca s') = length (Ca s) \<and> length (Cb s') = length (Cb s) \<and>
     length (Da s') = length (Da s) \<and> length (Db s') = length (Db s)"

definition changes_materials :: "MaxwellSolver \<Rightarrow> MaxwellSolver \<Rightarrow> bool" where
  "changes_materials s s' \<longleftrightarrow>
     params s' = params s \<and> Ez s' = Ez s \<and> Hx s' = Hx s \<and> Hy s' = Hy s \<and>
     Ca s' = Ca s \<and> Cb s' = Cb s \<and> Da s' = Da s \<and> Db s' = Db s \<and>
     sources s' = sources s \<and> obstacles s' = obstacles s \<and> time s' = time s \<and>
     length (epsilon s') = length (epsilon s) \<and> length (mu s') = length (mu s) \<and>
     length (sigma s') = length (sigma s)"

text \<open>\<open>on_rim p i j\<close>: cell \<open>(i, j)\<close> lies in the outermost row or column of the grid.\<close>

definition on_rim :: "GridParams \<Rightarrow> nat \<Rightarrow> nat \<Rightarrow> bool" where
  "on_rim p i j \<longleftrightarrow> i = 0 \<or> i = nx p - 1 \<or> j = 0 \<or> j = ny p - 1"

text \<open>
  \<open>pml_merge p k old\<close>: what one pass of \<open>setupPML\<close> leaves in \<open>sigma[k]\<close> when it found \<open>old\<close>
  there.
\<close>

definition pml_merge :: "GridParams \<Rightarrow> nat \<Rightarrow> number \<Rightarrow> number" where
  "pml_merge p k old =
     (if 0 < pml_thickness p \<and> k < nx p * ny p \<and> Fin 0 < pmlSigma p (k mod nx p) (k div nx p)
      then Math_fround (Math_max old (pmlSigma p (k mod nx p) (k div nx p))) else old)"

text \<open>
  \<open>compiled_at s k\<close>: the four coefficients of cell \<open>k\<close> are the ones the material entries of
  that cell give, with \<open>\<epsilon> = epsilon[k] \<sqdot> \<epsilon>\<^sub>0\<close> and \<open>\<mu> = mu[k] \<sqdot> \<mu>\<^sub>0\<close>, as the 32-bit arrays
  store them.
\<close>

definition compiled_at :: "MaxwellSolver \<Rightarrow> nat \<Rightarrow> bool" where
  "compiled_at s k \<longleftrightarrow>
     (let eps = epsilon s ! k * eps0;
          mu' = mu s ! k * mu0;
          sig = sigma s ! k;
          dt' = Fin (dt (params s))
      in Ca s ! k =
           Math_fround ((Fin 1 - sig * dt' / (Fin 2 * eps)) / (Fin 1 + sig * dt' / (Fin 2 * eps))) \<and>
         Cb s ! k = Math_fround ((dt' / eps) / (Fin 1 + sig * dt' / (Fin 2 * eps))) \<and>
         Da s ! k = Fin 1 \<and>
         Db s ! k = Math_fround (dt' / mu'))"

text \<open>\<open>pml_merged s\<close>: a further pass of \<open>setupPML\<close> would not change \<open>sigma\<close>.\<close>

definition pml_merged :: "MaxwellSolver \<Rightarrow> bool" where
  "pml_merged s \<longleftrightarrow> sigma (setupPML s) = sigma s"

text \<open>Example inputs: a 3 by 3 grid (no PML layer), a 4 by 4 grid (a layer one cell thick).\<close>

definition grid3 :: GridParams where
  "grid3 = \<lparr>nx = 3, ny = 3, dx = 1, dy = 1, dt = 1 / 10 ^ 9\<rparr>"

definition grid4 :: GridParams where
  "grid4 = \<lparr>nx = 4, ny = 4, dx = 1, dy = 1, dt = 1 / 10 ^ 9\<rparr>"

definition glass :: Obstacle where
  "glass = \<lparr>Obstacle.id' = ''glass'', Obstacle.x = 1, Obstacle.y = 1, Obstacle.width = 1,
            height = 1,
            material = \<lparr>Material.epsilon = 4, Material.mu = 1, Material.sigma = 0\<rparr>\<rparr>"

text \<open>A dipole at the centre cell of \<open>grid3\<close>, a quarter period per time step.\<close>

definition dipole1 :: Source where
  "dipole1 = \<lparr>Source.id' = ''d1'', type = Dipole, Source.x = 1, Source.y = 1,
              frequency = 250000000, amplitude = 1, phase = 0,
              Source.width = None, length' = None, angle = None, charge = None,
              current = None, polarity = None\<rparr>"

text \<open>
  \<open>axis_profile T n c i\<close>: the real value of \<open>sigmaX\<close> (or \<open>sigmaY\<close>) at position \<open>i\<close> of \<open>n\<close>
  for a layer of \<open>T\<close> cells and a finite peak conductivity \<open>c\<close>.
\<close>

definition axis_profile :: "nat \<Rightarrow> nat \<Rightarrow> real \<Rightarrow> nat \<Rightarrow> real" where
  "axis_profile T n c i =
     (if i < T then c * ((real T - real i) / real T) ^ 3
      else if int n - int T \<le> int i
           then c * (min ((real i - (real n - real T - 1)) / real T) 1) ^ 3
      else 0)"

text \<open>An 80 by 80 grid, the smallest with the full layer of 20 cells.\<close>

definition grid80 :: GridParams where
  "grid80 = \<lparr>nx = 80, ny = 80, dx = 1, dy = 1, dt = 1 / 10 ^ 9\<rparr>"

text \<open>
  \<open>covers p ob k\<close>: cell \<open>k\<close> of the grid lies in the rectangle the rasterizer paints for the
  obstacle \<open>ob\<close>.
\<close>

definition covers :: "GridParams \<Rightarrow> Obstacle \<Rightarrow> nat \<Rightarrow> bool" where
  "covers p ob k \<longleftrightarrow>
     k < nx p * ny p \<and>
     \<lfloor>Obstacle.x ob\<rfloor> \<le> int (k mod nx p) \<and>
     int (k mod nx p) < \<lfloor>Obstacle.x ob + Obstacle.width ob\<rfloor> \<and>
     \<lfloor>Obstacle.y ob\<rfloor> \<le> int (k div nx p) \<and>
     int (k div nx p) < \<lfloor>Obstacle.y ob + height ob\<rfloor>"

text \<open>\<open>curlH s k\<close>: the discrete curl of \<open>H\<close> that \<open>updateE\<close> computes at cell \<open>k\<close>.\<close>

definition curlH :: "MaxwellSolver \<Rightarrow> nat \<Rightarrow> number" where
  "curlH s k =
     (rd (Hy s) k - rd (Hy s) (k - 1)) / Fin (dx (params s))
     - (rd (Hx s) k - rd (Hx s) (k - nx (params s))) / Fin (dy (params s))"

text \<open>\<open>zero_fields s\<close>: every entry of \<open>Ez\<close>, \<open>Hx\<close> and \<open>Hy\<close> is 0.\<close>

definition zero_fields :: "MaxwellSolver \<Rightarrow> bool" where
  "zero_fields s \<longleftrightarrow>
     list_all (\<lambda>v. v = Fin 0) (Ez s) \<and> list_all (\<lambda>v. v = Fin 0) (Hx s) \<and>
     list_all (\<lambda>v. v = Fin 0) (Hy s)"

text \<open>\<open>finite_coefficients s\<close>: no update coefficient is infinite or NaN.\<close>

definition finite_coefficients :: "MaxwellSolver \<Rightarrow> bool" where
  "finite_coefficients s \<longleftrightarrow>
     list_all is_fin (Ca s) \<and> list_all is_fin (Cb s) \<and>
     list_all is_fin (Da s) \<and> list_all is_fin (Db s)"

text \<open>An obstacle of zero permittivity on the centre cell of \<open>grid3\<close>.\<close>

definition void :: Obstacle where
  "void = \<lparr>Obstacle.id' = ''void'', Obstacle.x = 1, Obstacle.y = 1, Obstacle.width = 1,
           height = 1,
           material = \<lparr>Material.epsilon = 0, Material.mu = 1, Material.sigma = 0\<rparr>\<rparr>"

text \<open>
  \<open>pristine_at s k\<close>: cell \<open>k\<close> holds vacuum with the PML overlay merged in, as a freshly
  constructed solver has it.
\<close>

definition pristine_at :: "MaxwellSolver \<Rightarrow> nat \<Rightarrow> bool" where
  "pristine_at s k \<longleftrightarrow>
     epsilon s ! k = Fin 1 \<and> mu s ! k = Fin 1 \<and> sigma s ! k = pml_merge (params s) k (Fin 0)"

text \<open>\<open>same_cell s s' k\<close>: the material and the coefficients of cell \<open>k\<close> agree in both states.\<close>

definition same_cell :: "MaxwellSolver \<Rightarrow> MaxwellSolver \<Rightarrow> nat \<Rightarrow> bool" where
  "same_cell s s' k \<longleftrightarrow>
     epsilon s' ! k = epsilon s ! k \<and> mu s' ! k = mu s ! k \<and> sigma s' ! k = sigma s ! k \<and>
     Ca s' ! k = Ca s ! k \<and> Cb s' ! k = Cb s ! k \<and> Da s' ! k = Da s ! k \<and> Db s' ! k = Db s ! k"

text \<open>Two obstacles for the examples: one on the corner cell of \<open>grid4\<close>, inside the PML layer,
  and one on the centre cell of \<open>grid3\<close>, where \<open>glass\<close> lies too.\<close>

definition corner :: Obstacle where
  "corner = \<lparr>Obstacle.id' = ''corner'', Obstacle.x = 0, Obstacle.y = 0, Obstacle.width = 1,
             height = 1,
             material = \<lparr>Material.epsilon = 4, Material.mu = 1, Material.sigma = 0\<rparr>\<rparr>"

definition film :: Obstacle where
  "film = \<lparr>Obstacle.id' = ''film'', Obstacle.x = 1, Obstacle.y = 1, Obstacle.width = 1,
           height = 1,
           material = \<lparr>Material.epsilon = 2, Material.mu = 1, Material.sigma = 0\<rparr>\<rparr>"

text \<open>
  A 3 by 3 grid of very large cells with a very large time step, which still satisfies the
  Courant bound \<open>dt < min(dx, dy) / (c\<^sub>0 \<sqdot> \<surd>2)\<close>.
\<close>

definition grid3_far :: GridParams where
  "grid3_far = \<lparr>nx = 3, ny = 3, dx = 10 ^ 40, dy = 10 ^ 40, dt = 10 ^ 30\<rparr>"

section \<open>Arithmetic and loops\<close>

lemma Fin_minus [simp]: "Fin a - Fin b = Fin (a - b)"
  by (simp add: minus_number_def)

lemma Fin_divide [simp]: "b \<noteq> 0 \<Longrightarrow> Fin a / Fin b = Fin (a / b)"
  by simp

lemma float32_limit_pos: "0 < float32_limit"
  by (simp add: float32_limit_def)

lemma Math_fround_in_range:
  "- (2 ^ 128 - 2 ^ 103) < a \<Longrightarrow> a < 2 ^ 128 - 2 ^ 103 \<Longrightarrow> Math_fround (Fin a) = Fin a"
  by (simp add: Math_fround.simps float32_limit_def)

lemma Math_fround_small [simp]: "Math_fround (Fin 0) = Fin 0" "Math_fround (Fin 1) = Fin 1"
  by (simp_all add: Math_fround.simps float32_limit_def)

lemma Math_fround_idem [simp]: "Math_fround (Math_fround v) = Math_fround v"
  using float32_limit_pos by (cases v) (auto simp: Math_fround.simps)

lemma Math_fround_mono: "a \<le> b \<Longrightarrow> Math_fround (Fin a) \<le> Math_fround (Fin b)"
  using float32_limit_pos by (auto simp: Math_fround.simps)

lemma Math_fround_pos: "0 < a \<Longrightarrow> \<exists>b > 0. Math_fround (Fin a) = Fin b \<or> Math_fround (Fin a) = PInf"
  using float32_limit_pos by (auto simp: Math_fround.simps)

lemma is_fin_iff: "is_fin v \<longleftrightarrow> (\<exists>a. v = Fin a)"
  by (cases v) auto

lemma N_simps [simp]: "N n = Fin (real n)" by (simp add: N_def)

lemma fold_inv:
  assumes "P s" and "\<And>x s. x \<in> set xs \<Longrightarrow> P s \<Longrightarrow> P (f x s)"
  shows "P (fold f xs s)"
  using assms by (induction xs arbitrary: s) auto

lemma for_grid_inv:
  assumes "P s"
    and "\<And>i j s. i0 \<le> i \<Longrightarrow> i < i1 \<Longrightarrow> j0 \<le> j \<Longrightarrow> j < j1 \<Longrightarrow> P s \<Longrightarrow> P (body i j s)"
  shows "P (for_grid j0 j1 i0 i1 body s)"
proof -
  have inner: "P (fold (\<lambda>i. body i j) [i0..<i1] s')" if "P s'" "j0 \<le> j" "j < j1" for j s'
    using that(1) by (rule fold_inv) (use that assms(2) in auto)
  show ?thesis
    unfolding for_grid_def using assms(1) by (rule fold_inv) (use inner in auto)
qed

lemma for_box_inv:
  assumes "P s"
    and "\<And>i j s. i0 \<le> i \<Longrightarrow> i < i1 \<Longrightarrow> j0 \<le> j \<Longrightarrow> j < j1 \<Longrightarrow> P s \<Longrightarrow> P (body i j s)"
  shows "P (for_box j0 j1 i0 i1 body s)"
proof -
  have inner: "P (fold (\<lambda>i. body i j) [i0..i1 - 1] s')" if "P s'" "j0 \<le> j" "j < j1" for j s'
    using that(1) by (rule fold_inv) (use that assms(2) in auto)
  show ?thesis
    unfolding for_box_def using assms(1) by (rule fold_inv) (use inner in auto)
qed

lemma for_grid_product:
  "for_grid j0 j1 i0 i1 body s = fold (\<lambda>(j, i). body i j) (List.product [j0..<j1] [i0..<i1]) s"
proof -
  have "fold (\<lambda>j. fold (\<lambda>i. body i j) is) js s = fold (\<lambda>(j, i). body i j) (List.product js is) s"
    for js :: "nat list" and "is" :: "nat list"
    by (induction js arbitrary: s) (simp_all add: fold_map comp_def)
  then show ?thesis by (simp add: for_grid_def)
qed

lemma for_box_product:
  "for_box j0 j1 i0 i1 body s = fold (\<lambda>(j, i). body i j) (List.product [j0..j1 - 1] [i0..i1 - 1]) s"
proof -
  have "fold (\<lambda>j. fold (\<lambda>i. body i j) is) js s = fold (\<lambda>(j, i). body i j) (List.product js is) s"
    for js :: "int list" and "is" :: "int list"
    by (induction js arbitrary: s) (simp_all add: fold_map comp_def)
  then show ?thesis by (simp add: for_box_def)
qed

subsection \<open>Loops that write each cell once\<close>

lemma fold_pointwise:
  fixes g :: "'s \<Rightarrow> number list"
  assumes step: "\<And>p s'. p \<in> set ps \<Longrightarrow> I s' \<Longrightarrow>
            I (B p s') \<and> g (B p s') = (if en p then (g s')[idx p := h p (rd (g s') (idx p))] else g s')"
    and dist: "distinct (map idx (filter en ps))"
    and I: "I s"
  shows "I (fold B ps s) \<and> length (g (fold B ps s)) = length (g s) \<and>
         (\<forall>k < length (g s).
            (\<forall>p \<in> set ps. en p \<longrightarrow> idx p = k \<longrightarrow> g (fold B ps s) ! k = h p (g s ! k)) \<and>
            ((\<forall>p \<in> set ps. en p \<longrightarrow> idx p \<noteq> k) \<longrightarrow> g (fold B ps s) ! k = g s ! k))"
  using assms
proof (induction ps arbitrary: s)
  case Nil
  then show ?case by simp
next
  case (Cons p ps)
  let ?s1 = "B p s"
  have s1: "I ?s1" "g ?s1 = (if en p then (g s)[idx p := h p (rd (g s) (idx p))] else g s)"
    using Cons.prems(1) [of p s] Cons.prems(3) by auto
  have len: "length (g ?s1) = length (g s)" using s1(2) by simp
  have IH: "I (fold B ps ?s1) \<and> length (g (fold B ps ?s1)) = length (g ?s1) \<and>
         (\<forall>k < length (g ?s1).
            (\<forall>q \<in> set ps. en q \<longrightarrow> idx q = k \<longrightarrow> g (fold B ps ?s1) ! k = h q (g ?s1 ! k)) \<and>
            ((\<forall>q \<in> set ps. en q \<longrightarrow> idx q \<noteq> k) \<longrightarrow> g (fold B ps ?s1) ! k = g ?s1 ! k))"
  proof (rule Cons.IH)
    show "\<And>q s'. q \<in> set ps \<Longrightarrow> I s' \<Longrightarrow>
            I (B q s') \<and> g (B q s') = (if en q then (g s')[idx q := h q (rd (g s') (idx q))] else g s')"
      using Cons.prems(1) by simp
    show "distinct (map idx (filter en ps))" using Cons.prems(2) by (simp split: if_splits)
    show "I ?s1" by (rule s1)
  qed
  show ?case
  proof (intro conjI allI impI)
    show "I (fold B (p # ps) s)" using IH by simp
    show "length (g (fold B (p # ps) s)) = length (g s)" using IH len by simp
  next
    fix k assume k: "k < length (g s)"
    show "\<forall>q\<in>set (p # ps). en q \<longrightarrow> idx q = k \<longrightarrow> g (fold B (p # ps) s) ! k = h q (g s ! k)"
    proof (intro ballI impI)
      fix q assume q: "q \<in> set (p # ps)" "en q" "idx q = k"
      show "g (fold B (p # ps) s) ! k = h q (g s ! k)"
      proof (cases "q = p")
        case True
        have "\<forall>r \<in> set ps. en r \<longrightarrow> idx r \<noteq> k"
        proof (intro ballI impI)
          fix r assume r: "r \<in> set ps" "en r"
          have "idx p \<notin> idx ` set (filter en ps)" using Cons.prems(2) q True by simp
          moreover have "idx r \<in> idx ` set (filter en ps)" using r by force
          ultimately show "idx r \<noteq> k" using q True by metis
        qed
        then have "g (fold B ps ?s1) ! k = g ?s1 ! k" using IH k len by simp
        then show ?thesis using s1(2) q True k by (simp add: rd_def)
      next
        case False
        then have qin: "q \<in> set ps" using q by simp
        have "en p \<Longrightarrow> idx p \<noteq> k"
        proof -
          assume p: "en p"
          then have "idx p \<notin> idx ` set (filter en ps)" using Cons.prems(2) by simp
          moreover have "idx q \<in> idx ` set (filter en ps)" using qin q(2) by force
          ultimately show "idx p \<noteq> k" using q by metis
        qed
        then have "g ?s1 ! k = g s ! k" using s1(2) by auto
        moreover have "g (fold B ps ?s1) ! k = h q (g ?s1 ! k)" using IH k len qin q by simp
        ultimately show ?thesis by simp
      qed
    qed
    show "g (fold B (p # ps) s) ! k = g s ! k" if "\<forall>q\<in>set (p # ps). en q \<longrightarrow> idx q \<noteq> k"
    proof -
      have "g ?s1 ! k = g s ! k" using s1(2) that by auto
      moreover have "g (fold B ps ?s1) ! k = g ?s1 ! k" using IH k len that by simp
      ultimately show ?thesis by simp
    qed
  qed
qed

subsection \<open>What a time step leaves alone\<close>

lemma changes_fields_refl: "changes_fields s s"
  by (simp add: changes_fields_def)

lemma changes_fields_Ez:
  "changes_fields s s' \<Longrightarrow> length e = length (Ez s') \<Longrightarrow> changes_fields s (s'\<lparr>Ez := e\<rparr>)"
  by (simp add: changes_fields_def)

lemma changes_fields_Hx:
  "changes_fields s s' \<Longrightarrow> length h = length (Hx s') \<Longrightarrow> changes_fields s (s'\<lparr>Hx := h\<rparr>)"
  by (simp add: changes_fields_def)

lemma changes_fields_Hy:
  "changes_fields s s' \<Longrightarrow> length h = length (Hy s') \<Longrightarrow> changes_fields s (s'\<lparr>Hy := h\<rparr>)"
  by (simp add: changes_fields_def)

lemma changes_fields_trans:
  "changes_fields s s' \<Longrightarrow> changes_fields s' s'' \<Longrightarrow> changes_fields s s''"
  by (simp add: changes_fields_def)

lemma changes_fields_D:
  assumes "changes_fields s s'"
  shows "params s' = params s" "epsilon s' = epsilon s" "mu s' = mu s" "sigma s' = sigma s"
    "Ca s' = Ca s" "Cb s' = Cb s" "Da s' = Da s" "Db s' = Db s"
    "sources s' = sources s" "obstacles s' = obstacles s" "time s' = time s"
    "length (Ez s') = length (Ez s)" "length (Hx s') = length (Hx s)"
    "length (Hy s') = length (Hy s)"
  using assms by (simp_all add: changes_fields_def)

lemma length_wri [simp]: "length (wri xs k v) = length xs"
  by (simp add: wri_def)

lemma length_add_at [simp]: "length (add_at xs k v) = length xs"
  by (simp add: add_at_def split: option.splits)

lemma updateH_changes: "changes_fields s (updateH s)"
proof -
  have 1: "changes_fields s (for_grid 0 (ny (params s) - 1) 0 (nx (params s)) updateHx_cell s)"
    (is "changes_fields s ?s1")
    by (rule for_grid_inv [where P = "changes_fields s"])
       (auto simp: changes_fields_refl updateHx_cell_def Let_def intro: changes_fields_Hx)
  have "changes_fields s (for_grid 0 (ny (params s)) 0 (nx (params s) - 1) updateHy_cell ?s1)"
    using 1 by (rule for_grid_inv [where P = "changes_fields s"])
       (auto simp: updateHy_cell_def Let_def intro: changes_fields_Hy)
  then show ?thesis by (simp add: updateH_def Let_def)
qed

lemma updateE_changes: "changes_fields s (updateE s)"
  unfolding updateE_def
  by (rule for_grid_inv [where P = "changes_fields s"])
     (auto simp: changes_fields_refl updateE_cell_def Let_def intro: changes_fields_Ez)

lemma inject_changes: "changes_fields s s' \<Longrightarrow> changes_fields s (inject i j v s')"
  by (auto simp: inject_def intro: changes_fields_Ez)

lemma applySource_changes:
  assumes "changes_fields s s'"
  shows "changes_fields s (applySource src s')"
proof -
  have f: "changes_fields s (fold (\<lambda>k. inject (a k) (b k) v) ks s')" for a b :: "nat \<Rightarrow> int" and v ks
    using assms by (rule fold_inv) (rule inject_changes)
  have g: "changes_fields s (for_box j0 j1 i0 i1 (\<lambda>di dj. inject (a di) (b dj) (v di dj)) s')"
    for a b :: "int \<Rightarrow> int" and v j0 j1 i0 i1
    using assms by (rule for_box_inv) (rule inject_changes)
  have e: "changes_fields s (s'\<lparr>Ez := add_at (Ez s') k v\<rparr>)" for k v
    using assms by (rule changes_fields_Ez) simp
  show ?thesis
    unfolding applySource_def Let_def
    by (cases "type src") (simp_all only: SourceType.case if_split assms f g e simp_thms)
qed

lemma applySources_changes: "changes_fields s (applySources s)"
proof -
  have "changes_fields s (fold applySource srcs s)" for srcs
    by (rule fold_inv [where P = "changes_fields s"])
       (auto simp: changes_fields_refl intro: applySource_changes)
  then show ?thesis by (simp add: applySources_def)
qed

lemma applyBoundaries_changes: "changes_fields s (applyBoundaries s)"
proof -
  let ?n = "int (nx (params s))" and ?m = "int (ny (params s))"
  let ?s1 = "fold (\<lambda>j s. s\<lparr>Ez := wri (wri (Ez s) (int j * ?n) (Fin 0)) (int j * ?n + ?n - 1) (Fin 0)\<rparr>)
                 [0..<ny (params s)] s"
  have 1: "changes_fields s ?s1"
    by (rule fold_inv [where P = "changes_fields s"])
       (auto simp: changes_fields_refl intro: changes_fields_Ez)
  have "changes_fields s (fold (\<lambda>i s. s\<lparr>Ez := wri (wri (Ez s) (int i) (Fin 0)) ((?m - 1) * ?n + int i) (Fin 0)\<rparr>)
           [0..<nx (params s)] ?s1)"
    using 1 by (rule fold_inv) (auto intro: changes_fields_Ez)
  then show ?thesis by (simp add: applyBoundaries_def Let_def)
qed

lemma step_changes: "changes_fields s ((step s)\<lparr>time := time s\<rparr>)"
proof -
  let ?s4 = "applyBoundaries (updateE (applySources (updateH s)))"
  have c: "changes_fields s ?s4"
    by (rule changes_fields_trans [OF updateH_changes],
        rule changes_fields_trans [OF applySources_changes],
        rule changes_fields_trans [OF updateE_changes], rule applyBoundaries_changes)
  then show ?thesis by (simp add: step_def Let_def changes_fields_def)
qed

lemma time_step: "time (step s) = time s + 1"
proof -
  let ?s4 = "applyBoundaries (updateE (applySources (updateH s)))"
  have c: "changes_fields s ?s4"
    by (rule changes_fields_trans [OF updateH_changes],
        rule changes_fields_trans [OF applySources_changes],
        rule changes_fields_trans [OF updateE_changes], rule applyBoundaries_changes)
  then show ?thesis by (simp add: step_def Let_def changes_fields_def)
qed

text \<open>
  Claim C10: \<open>step\<close> changes only the field arrays \<open>Ez\<close>, \<open>Hx\<close>, \<open>Hy\<close> and the step counter,
  which it increments; the grid parameters, the material arrays, the coefficient arrays, the
  source list and the obstacle list are those of the state before.
\<close>

theorem step_frame:
  "step s = s\<lparr>Ez := Ez (step s), Hx := Hx (step s), Hy := Hy (step s), time := time s + 1\<rparr>"
  using step_changes [of s] time_step [of s]
  by (intro MaxwellSolver.equality) (simp_all add: changes_fields_def)

subsection \<open>What the material passes leave alone\<close>

lemma setupPML_changes: "changes_sigma s (setupPML s)"
proof -
  have "changes_sigma s (for_grid 0 (ny (params s)) 0 (nx (params s)) setupPML_cell s)"
    by (rule for_grid_inv [where P = "changes_sigma s"])
       (simp_all add: changes_sigma_def setupPML_cell_def Let_def)
  then show ?thesis by (simp add: setupPML_def changes_sigma_def)
qed

lemma updateCoefficients_changes: "changes_coefficients s (updateCoefficients s)"
  unfolding updateCoefficients_def
  by (rule for_grid_inv [where P = "changes_coefficients s"])
     (simp_all add: changes_coefficients_def updateCoefficients_cell_def Let_def)

lemma rasterize_changes: "changes_materials s (rasterize ob m s)"
  unfolding rasterize_def Let_def
  by (rule for_box_inv [where P = "changes_materials s"])
     (simp_all add: changes_materials_def paint_def Let_def)

lemma well_formed_construct: "well_formed (construct p)"
proof -
  define s0 where "s0 = \<lparr>params = p,
            Ez = replicate (nx p * ny p) (Fin 0), Hx = replicate (nx p * ny p) (Fin 0),
            Hy = replicate (nx p * ny p) (Fin 0),
            epsilon = replicate (nx p * ny p) (Fin 1), mu = replicate (nx p * ny p) (Fin 1),
            sigma = replicate (nx p * ny p) (Fin 0),
            Ca = replicate (nx p * ny p) (Fin 0), Cb = replicate (nx p * ny p) (Fin 0),
            Da = replicate (nx p * ny p) (Fin 0), Db = replicate (nx p * ny p) (Fin 0),
            sources = [], obstacles = [], time = 0\<rparr>"
  have c: "construct p = updateCoefficients (setupPML s0)"
    by (simp add: construct_def Let_def s0_def)
  have "well_formed s0" by (simp add: well_formed_def s0_def)
  then show ?thesis
    using setupPML_changes [of s0] updateCoefficients_changes [of "setupPML s0"]
    unfolding c by (simp add: well_formed_def changes_sigma_def changes_coefficients_def)
qed

lemma well_formed_setupPML: "well_formed s \<Longrightarrow> well_formed (setupPML s)"
  using setupPML_changes [of s] by (simp add: well_formed_def changes_sigma_def)

lemma well_formed_updateCoefficients: "well_formed s \<Longrightarrow> well_formed (updateCoefficients s)"
  using updateCoefficients_changes [of s] by (simp add: well_formed_def changes_coefficients_def)

lemma well_formed_rasterize: "well_formed s \<Longrightarrow> well_formed (rasterize ob m s)"
  using rasterize_changes [of s ob m] by (simp add: well_formed_def changes_materials_def)

lemma well_formed_obstacles [simp]: "well_formed (s\<lparr>obstacles := obs\<rparr>) = well_formed s"
  by (simp add: well_formed_def)

lemma well_formed_step: "well_formed s \<Longrightarrow> well_formed (step s)"
  using step_changes [of s] by (simp add: well_formed_def changes_fields_def)

lemma well_formed_run: "well_formed s \<Longrightarrow> well_formed (run n s)"
  by (induction n arbitrary: s) (simp_all add: well_formed_step)

lemma well_formed_addSource: "well_formed s \<Longrightarrow> well_formed (addSource src s)"
  by (simp add: well_formed_def addSource_def)

lemma well_formed_removeSource: "well_formed s \<Longrightarrow> well_formed (removeSource i s)"
  by (simp add: well_formed_def removeSource_def)

lemma well_formed_addObstacle: "well_formed s \<Longrightarrow> well_formed (addObstacle ob s)"
  unfolding addObstacle_def applyObstacle_def
  by (intro well_formed_updateCoefficients well_formed_setupPML well_formed_rasterize) simp

lemma well_formed_removeObstacle: "well_formed s \<Longrightarrow> well_formed (removeObstacle i s)"
  unfolding removeObstacle_def removeObstacleMaterial_def
  by (auto split: option.splits
      intro!: well_formed_updateCoefficients well_formed_setupPML
      simp: well_formed_rasterize)

lemma well_formed_reset: "well_formed s \<Longrightarrow> well_formed (reset s)"
  unfolding reset_def by (rule well_formed_setupPML) (simp add: well_formed_def)

text \<open>
  Claim C8: after \<open>reset\<close>, \<open>getTime\<close> is 0, the three field arrays hold zeros only (and keep
  their length), and \<open>getSources\<close> and \<open>getObstacles\<close> return what they returned before.
\<close>

theorem reset_contract:
  "getTime (reset s) = Fin 0 \<and>
   Ez (reset s) = replicate (length (Ez s)) (Fin 0) \<and>
   Hx (reset s) = replicate (length (Hx s)) (Fin 0) \<and>
   Hy (reset s) = replicate (length (Hy s)) (Fin 0) \<and>
   getSources (reset s) = getSources s \<and> getObstacles (reset s) = getObstacles s"
  using setupPML_changes [of "s\<lparr>Ez := map (\<lambda>_. Fin 0) (Ez s), Hx := map (\<lambda>_. Fin 0) (Hx s),
                 Hy := map (\<lambda>_. Fin 0) (Hy s), time := 0\<rparr>"]
  by (simp add: reset_def changes_sigma_def getTime_def getSources_def getObstacles_def
      map_replicate_const)

subsection \<open>Boundary enforcement\<close>

lemma Ez_fold_update:
  "Ez (fold (\<lambda>k s. s\<lparr>Ez := F k (Ez s)\<rparr>) ks s) = fold F ks (Ez s)"
  by (induction ks arbitrary: s) simp_all

lemma nth_wri:
  "k < length xs \<Longrightarrow> wri xs a v ! k = (if int k = a then v else xs ! k)"
  by (auto simp: wri_def nth_list_update)

lemma fold_wri_zero:
  assumes "k < length xs"
  shows "fold (\<lambda>j xs. wri (wri xs (a j) (Fin 0)) (b j) (Fin 0)) js xs ! k =
           (if \<exists>j \<in> set js. int k = a j \<or> int k = b j then Fin 0 else xs ! k)"
  using assms
proof (induction js arbitrary: xs)
  case Nil
  then show ?case by simp
next
  case (Cons j js)
  let ?ys = "wri (wri xs (a j) (Fin 0)) (b j) (Fin 0)"
  have "length ?ys = length xs" by simp
  then have "fold (\<lambda>j xs. wri (wri xs (a j) (Fin 0)) (b j) (Fin 0)) js ?ys ! k =
           (if \<exists>j \<in> set js. int k = a j \<or> int k = b j then Fin 0 else ?ys ! k)"
    using Cons.IH [of ?ys] Cons.prems by simp
  moreover have "?ys ! k = (if int k = a j \<or> int k = b j then Fin 0 else xs ! k)"
    using Cons.prems by (simp add: nth_wri)
  ultimately show ?case by auto
qed

lemma Ez_applyBoundaries:
  assumes "k < length (Ez s)"
  shows "Ez (applyBoundaries s) ! k =
     (if (\<exists>i < nx (params s). int k = int i \<or>
            int k = (int (ny (params s)) - 1) * int (nx (params s)) + int i) \<or>
         (\<exists>j < ny (params s). int k = int j * int (nx (params s)) \<or>
            int k = int j * int (nx (params s)) + int (nx (params s)) - 1)
      then Fin 0 else Ez s ! k)"
proof -
  let ?n = "int (nx (params s))" and ?m = "int (ny (params s))"
  let ?F1 = "\<lambda>j xs. wri (wri xs (int j * ?n) (Fin 0)) (int j * ?n + ?n - 1) (Fin 0)"
  let ?F2 = "\<lambda>i xs. wri (wri xs (int i) (Fin 0)) ((?m - 1) * ?n + int i) (Fin 0)"
  have E: "Ez (applyBoundaries s) = fold ?F2 [0..<nx (params s)] (fold ?F1 [0..<ny (params s)] (Ez s))"
    by (simp add: applyBoundaries_def Let_def Ez_fold_update [where F = ?F1]
        Ez_fold_update [where F = ?F2])
  have len: "length (fold ?F1 [0..<ny (params s)] (Ez s)) = length (Ez s)"
    by (rule fold_inv [where P = "\<lambda>xs. length xs = length (Ez s)"]) simp_all
  show ?thesis
    unfolding E using assms len
    by (auto simp: fold_wri_zero [where a = "\<lambda>i. int i" and b = "\<lambda>i. (?m - 1) * ?n + int i"]
        fold_wri_zero [where a = "\<lambda>j. int j * ?n" and b = "\<lambda>j. int j * ?n + ?n - 1"])
qed

lemma rim_written:
  assumes "i < n" "j < m" "i = 0 \<or> i = n - 1 \<or> j = 0 \<or> j = m - 1"
  shows "(\<exists>i' < n. int (j * n + i) = int i' \<or> int (j * n + i) = (int m - 1) * int n + int i') \<or>
         (\<exists>j' < m. int (j * n + i) = int j' * int n \<or> int (j * n + i) = int j' * int n + int n - 1)"
proof -
  consider "i = 0" | "i = n - 1" | "j = 0" | "j = m - 1" using assms(3) by blast
  then show ?thesis
  proof cases
    case 1
    then have "int (j * n + i) = int j * int n" by simp
    then show ?thesis using assms(2) by blast
  next
    case 2
    then have "int (j * n + i) = int j * int n + int n - 1" using assms(1) by (simp add: of_nat_diff)
    then show ?thesis using assms(2) by blast
  next
    case 3
    then have "int (j * n + i) = int i" by simp
    then show ?thesis using assms(1) by blast
  next
    case 4
    moreover obtain m' where "m = Suc m'" using assms(2) by (cases m) auto
    ultimately have "int (j * n + i) = (int m - 1) * int n + int i" by simp
    then show ?thesis using assms(1) by blast
  qed
qed

lemma Ez_step: "Ez (step s) = Ez (applyBoundaries (updateE (applySources (updateH s))))"
  by (simp add: step_def Let_def)

lemma before_boundaries:
  "changes_fields s (updateE (applySources (updateH s)))"
  by (rule changes_fields_trans [OF updateH_changes],
      rule changes_fields_trans [OF applySources_changes], rule updateE_changes)

text \<open>
  Claim C4: in a solver whose arrays have one entry per cell, whatever its sources, obstacles,
  materials and fields are, \<open>Ez\<close> is exactly 0 after \<open>step\<close> at every cell of row 0, row
  \<open>ny - 1\<close>, column 0 and column \<open>nx - 1\<close>.
\<close>

theorem step_rim_zero:
  assumes "well_formed s" and "i < nx (params s)" and "j < ny (params s)"
    and "on_rim (params s) i j"
  shows "Ez (step s) ! (j * nx (params s) + i) = Fin 0"
proof -
  let ?s3 = "updateE (applySources (updateH s))"
  let ?k = "j * nx (params s) + i"
  have c: "params ?s3 = params s" "length (Ez ?s3) = length (Ez s)"
    using before_boundaries [of s] by (simp_all add: changes_fields_def)
  have "?k < nx (params s) * ny (params s)"
  proof -
    have "?k < j * nx (params s) + nx (params s)" using assms(2) by simp
    also have "\<dots> = Suc j * nx (params s)" by simp
    also have "\<dots> \<le> ny (params s) * nx (params s)"
      using assms(3) by (intro mult_le_mono1) simp
    finally show ?thesis by (simp add: mult.commute)
  qed
  then have k: "?k < length (Ez ?s3)" using assms(1) c by (simp add: well_formed_def Let_def)
  show ?thesis
    unfolding Ez_step
    using rim_written [OF assms(2,3), of ] assms(4) Ez_applyBoundaries [OF k]
    unfolding c on_rim_def by presburger
qed

subsection \<open>Closed forms of the grid loops\<close>

lemma cell_index_inj:
  assumes "i < n" "i' < n" "j * n + i = j' * n + (i' :: nat)"
  shows "j = j' \<and> i = i'"
proof -
  have "(j * n + i) div n = j" "(j * n + i) mod n = i" using assms(1) by simp_all
  moreover have "(j' * n + i') div n = j'" "(j' * n + i') mod n = i'" using assms(2) by simp_all
  ultimately show ?thesis using assms(3) by metis
qed

lemma distinct_cell_indices:
  assumes "i1 \<le> n"
  shows "distinct (map (\<lambda>(j, i). j * n + i) (List.product [j0..<j1] [i0..<i1]))"
proof -
  have "inj_on (\<lambda>(j, i). j * n + i) (set (List.product [j0..<j1] [i0..<i1]))"
    using assms by (auto simp: inj_on_def dest: cell_index_inj [rotated 2])
  then show ?thesis by (simp add: distinct_map distinct_product)
qed

lemma for_grid_pointwise:
  fixes g :: "'s \<Rightarrow> number list"
  assumes step: "\<And>i j s'. i0 \<le> i \<Longrightarrow> i < i1 \<Longrightarrow> j0 \<le> j \<Longrightarrow> j < j1 \<Longrightarrow> I s' \<Longrightarrow>
            I (body i j s') \<and> g (body i j s') = (g s')[j * n + i := h i j (rd (g s') (j * n + i))]"
    and le: "i1 \<le> n"
    and I: "I s"
  shows "I (for_grid j0 j1 i0 i1 body s)"
    and "g (for_grid j0 j1 i0 i1 body s) =
           map (\<lambda>k. if j0 \<le> k div n \<and> k div n < j1 \<and> i0 \<le> k mod n \<and> k mod n < i1
                     then h (k mod n) (k div n) (g s ! k) else g s ! k) [0..<length (g s)]"
proof -
  let ?ps = "List.product [j0..<j1] [i0..<i1]"
  let ?B = "\<lambda>(j, i). body i j" and ?idx = "\<lambda>(j, i). j * n + i" and ?h = "\<lambda>(j, i). h i j"
  let ?r = "fold ?B ?ps s"
  have main: "I ?r \<and> length (g ?r) = length (g s) \<and>
         (\<forall>k < length (g s).
            (\<forall>p \<in> set ?ps. True \<longrightarrow> ?idx p = k \<longrightarrow> g ?r ! k = ?h p (g s ! k)) \<and>
            ((\<forall>p \<in> set ?ps. True \<longrightarrow> ?idx p \<noteq> k) \<longrightarrow> g ?r ! k = g s ! k))"
  proof (rule fold_pointwise [where en = "\<lambda>_. True"])
    show "\<And>p s'. p \<in> set ?ps \<Longrightarrow> I s' \<Longrightarrow>
            I (?B p s') \<and> g (?B p s') = (if True then (g s')[?idx p := ?h p (rd (g s') (?idx p))] else g s')"
      using step by auto
    show "distinct (map ?idx (filter (\<lambda>_. True) ?ps))"
      using distinct_cell_indices [OF le] by simp
    show "I s" by (rule I)
  qed
  show "I (for_grid j0 j1 i0 i1 body s)" using main by (simp add: for_grid_product)
  show "g (for_grid j0 j1 i0 i1 body s) =
           map (\<lambda>k. if j0 \<le> k div n \<and> k div n < j1 \<and> i0 \<le> k mod n \<and> k mod n < i1
                     then h (k mod n) (k div n) (g s ! k) else g s ! k) [0..<length (g s)]"
  proof (rule nth_equalityI)
    show "length (g (for_grid j0 j1 i0 i1 body s)) = length (map (\<lambda>k. if j0 \<le> k div n \<and> k div n < j1 \<and> i0 \<le> k mod n \<and> k mod n < i1
                     then h (k mod n) (k div n) (g s ! k) else g s ! k) [0..<length (g s)])"
      using main by (simp add: for_grid_product)
  next
    fix k assume "k < length (g (for_grid j0 j1 i0 i1 body s))"
    then have k: "k < length (g s)" using main by (simp add: for_grid_product)
    show "g (for_grid j0 j1 i0 i1 body s) ! k = map (\<lambda>k. if j0 \<le> k div n \<and> k div n < j1 \<and> i0 \<le> k mod n \<and> k mod n < i1
                     then h (k mod n) (k div n) (g s ! k) else g s ! k) [0..<length (g s)] ! k"
    proof (cases "j0 \<le> k div n \<and> k div n < j1 \<and> i0 \<le> k mod n \<and> k mod n < i1")
      case True
      then have "(k div n, k mod n) \<in> set ?ps" by simp
      moreover have "?idx (k div n, k mod n) = k" by simp
      ultimately have "g ?r ! k = ?h (k div n, k mod n) (g s ! k)" using main k by blast
      then show ?thesis using True k by (simp add: for_grid_product)
    next
      case False
      have "\<forall>p \<in> set ?ps. ?idx p \<noteq> k"
      proof
        fix p assume p: "p \<in> set ?ps"
        obtain j i where ji: "p = (j, i)" by (cases p)
        have "i < n" using p ji le by simp
        then have "(j * n + i) div n = j" "(j * n + i) mod n = i" by simp_all
        then show "?idx p \<noteq> k" using False p ji by auto
      qed
      then have "g ?r ! k = g s ! k" using main k by blast
      then show ?thesis using False k by (auto simp: for_grid_product)
    qed
  qed
qed

lemma in_grid_iff: "k div n < m \<and> k mod n < n \<longleftrightarrow> k < n * (m :: nat)"
proof (cases "n = 0")
  case True
  then show ?thesis by simp
next
  case False
  then show ?thesis by (simp add: div_less_iff_less_mult mult.commute)
qed

lemma list_update_rd [simp]: "xs[k := rd xs k] = xs"
  by (cases "k < length xs") (simp_all add: rd_def list_update_beyond)

lemma rd_nth: "k < length xs \<Longrightarrow> rd xs k = xs ! k"
  by (simp add: rd_def)

lemma sigma_setupPML:
  "sigma (setupPML s) = map (\<lambda>k. pml_merge (params s) k (sigma s ! k)) [0..<length (sigma s)]"
proof (cases "pml_thickness (params s) \<le> 0")
  case True
  then show ?thesis by (simp add: setupPML_def pml_merge_def map_nth)
next
  case False
  let ?n = "nx (params s)" and ?m = "ny (params s)"
  let ?h = "\<lambda>i j old. if Fin 0 < pmlSigma (params s) i j
                        then Math_fround (Math_max old (pmlSigma (params s) i j)) else old"
  have "sigma (for_grid 0 ?m 0 ?n setupPML_cell s) =
          map (\<lambda>k. if 0 \<le> k div ?n \<and> k div ?n < ?m \<and> 0 \<le> k mod ?n \<and> k mod ?n < ?n
                    then ?h (k mod ?n) (k div ?n) (sigma s ! k) else sigma s ! k)
            [0..<length (sigma s)]"
  proof (rule for_grid_pointwise(2) [where I = "\<lambda>s'. params s' = params s" and h = ?h])
    show "\<And>i j s'. 0 \<le> i \<Longrightarrow> i < ?n \<Longrightarrow> 0 \<le> j \<Longrightarrow> j < ?m \<Longrightarrow> params s' = params s \<Longrightarrow>
        params (setupPML_cell i j s') = params s \<and>
        sigma (setupPML_cell i j s') =
          (sigma s')[j * ?n + i := ?h i j (rd (sigma s') (j * ?n + i))]"
      by (simp add: setupPML_cell_def Let_def)
  qed simp_all
  then show ?thesis
    using False by (simp add: setupPML_def pml_merge_def in_grid_iff cong: map_cong)
qed

lemma Math_max_idem:
  "Math_fround (Math_max (Math_fround (Math_max a v)) v) = Math_fround (Math_max a v)"
  using float32_limit_pos by (cases a; cases v) (auto simp: Math_fround.simps)

lemma pml_merge_idem: "pml_merge p k (pml_merge p k old) = pml_merge p k old"
  by (simp add: pml_merge_def Math_max_idem)

lemma changes_sigma_D:
  assumes "changes_sigma s s'"
  shows "params s' = params s" "length (sigma s') = length (sigma s)"
  using assms by (simp_all add: changes_sigma_def)

lemma sigma_setupPML_cong:
  assumes "params s' = params s" "sigma s' = sigma s"
  shows "sigma (setupPML s') = sigma (setupPML s)"
  by (simp add: sigma_setupPML assms)

lemma sigma_setupPML_twice: "sigma (setupPML (setupPML s)) = sigma (setupPML s)"
proof -
  have "sigma (setupPML (setupPML s)) =
          map (\<lambda>k. pml_merge (params s) k (sigma (setupPML s) ! k)) [0..<length (sigma s)]"
    using changes_sigma_D [OF setupPML_changes [of s]]
    by (simp add: sigma_setupPML [of "setupPML s"])
  also have "\<dots> = map (\<lambda>k. pml_merge (params s) k (sigma s ! k)) [0..<length (sigma s)]"
    by (rule map_cong) (simp_all add: sigma_setupPML [of s] pml_merge_idem)
  finally show ?thesis by (simp add: sigma_setupPML [of s])
qed

lemma setupPML_idem: "setupPML (setupPML s) = setupPML s"
  using setupPML_changes [of "setupPML s"] sigma_setupPML_twice [of s]
  by (intro MaxwellSolver.equality) (simp_all add: changes_sigma_def)

subsection \<open>The coefficient compiler, cell by cell\<close>

lemma updateCoefficients_arrays:
  "Ca (updateCoefficients s) =
     map (\<lambda>k. if k < nx (params s) * ny (params s)
               then Math_fround (coeff_Ca (Fin (dt (params s))) (rd (sigma s) k) (rd (epsilon s) k * eps0))
               else Ca s ! k) [0..<length (Ca s)]"
  "Cb (updateCoefficients s) =
     map (\<lambda>k. if k < nx (params s) * ny (params s)
               then Math_fround (coeff_Cb (Fin (dt (params s))) (rd (sigma s) k) (rd (epsilon s) k * eps0))
               else Cb s ! k) [0..<length (Cb s)]"
  "Da (updateCoefficients s) =
     map (\<lambda>k. if k < nx (params s) * ny (params s) then Fin 1 else Da s ! k) [0..<length (Da s)]"
  "Db (updateCoefficients s) =
     map (\<lambda>k. if k < nx (params s) * ny (params s)
               then Math_fround (Fin (dt (params s)) / (rd (mu s) k * mu0))
               else Db s ! k) [0..<length (Db s)]"
proof -
  let ?n = "nx (params s)" and ?m = "ny (params s)"
  let ?I = "\<lambda>s'. params s' = params s \<and> epsilon s' = epsilon s \<and> mu s' = mu s \<and> sigma s' = sigma s"
  have a: "Ca (for_grid 0 ?m 0 ?n updateCoefficients_cell s) =
          map (\<lambda>k. if 0 \<le> k div ?n \<and> k div ?n < ?m \<and> 0 \<le> k mod ?n \<and> k mod ?n < ?n
                    then (\<lambda>i j old. Math_fround (coeff_Ca (Fin (dt (params s))) (rd (sigma s) (j * ?n + i))
                            (rd (epsilon s) (j * ?n + i) * eps0))) (k mod ?n) (k div ?n) (Ca s ! k)
                    else Ca s ! k) [0..<length (Ca s)]"
    by (rule for_grid_pointwise(2) [where I = ?I]) (simp_all add: updateCoefficients_cell_def Let_def)
  have b: "Cb (for_grid 0 ?m 0 ?n updateCoefficients_cell s) =
          map (\<lambda>k. if 0 \<le> k div ?n \<and> k div ?n < ?m \<and> 0 \<le> k mod ?n \<and> k mod ?n < ?n
                    then (\<lambda>i j old. Math_fround (coeff_Cb (Fin (dt (params s))) (rd (sigma s) (j * ?n + i))
                            (rd (epsilon s) (j * ?n + i) * eps0))) (k mod ?n) (k div ?n) (Cb s ! k)
                    else Cb s ! k) [0..<length (Cb s)]"
    by (rule for_grid_pointwise(2) [where I = ?I]) (simp_all add: updateCoefficients_cell_def Let_def)
  have c: "Da (for_grid 0 ?m 0 ?n updateCoefficients_cell s) =
          map (\<lambda>k. if 0 \<le> k div ?n \<and> k div ?n < ?m \<and> 0 \<le> k mod ?n \<and> k mod ?n < ?n
                    then (\<lambda>i j old. Fin 1) (k mod ?n) (k div ?n) (Da s ! k)
                    else Da s ! k) [0..<length (Da s)]"
    by (rule for_grid_pointwise(2) [where I = ?I]) (simp_all add: updateCoefficients_cell_def Let_def)
  have d: "Db (for_grid 0 ?m 0 ?n updateCoefficients_cell s) =
          map (\<lambda>k. if 0 \<le> k div ?n \<and> k div ?n < ?m \<and> 0 \<le> k mod ?n \<and> k mod ?n < ?n
                    then (\<lambda>i j old. Math_fround (Fin (dt (params s)) / (rd (mu s) (j * ?n + i) * mu0)))
                           (k mod ?n) (k div ?n) (Db s ! k)
                    else Db s ! k) [0..<length (Db s)]"
    by (rule for_grid_pointwise(2) [where I = ?I]) (simp_all add: updateCoefficients_cell_def Let_def)
  show "Ca (updateCoefficients s) =
     map (\<lambda>k. if k < nx (params s) * ny (params s)
               then Math_fround (coeff_Ca (Fin (dt (params s))) (rd (sigma s) k) (rd (epsilon s) k * eps0))
               else Ca s ! k) [0..<length (Ca s)]"
    using a by (simp add: updateCoefficients_def in_grid_iff cong: map_cong)
  show "Cb (updateCoefficients s) =
     map (\<lambda>k. if k < nx (params s) * ny (params s)
               then Math_fround (coeff_Cb (Fin (dt (params s))) (rd (sigma s) k) (rd (epsilon s) k * eps0))
               else Cb s ! k) [0..<length (Cb s)]"
    using b by (simp add: updateCoefficients_def in_grid_iff cong: map_cong)
  show "Da (updateCoefficients s) =
     map (\<lambda>k. if k < nx (params s) * ny (params s) then Fin 1 else Da s ! k) [0..<length (Da s)]"
    using c by (simp add: updateCoefficients_def in_grid_iff cong: map_cong)
  show "Db (updateCoefficients s) =
     map (\<lambda>k. if k < nx (params s) * ny (params s)
               then Math_fround (Fin (dt (params s)) / (rd (mu s) k * mu0))
               else Db s ! k) [0..<length (Db s)]"
    using d by (simp add: updateCoefficients_def in_grid_iff cong: map_cong)
qed

lemma changes_coefficients_D:
  assumes "changes_coefficients s s'"
  shows "params s' = params s" "epsilon s' = epsilon s" "mu s' = mu s" "sigma s' = sigma s"
    "Ez s' = Ez s" "Hx s' = Hx s" "Hy s' = Hy s" "time s' = time s"
    "sources s' = sources s" "obstacles s' = obstacles s"
  using assms by (simp_all add: changes_coefficients_def)

lemma compiled_updateCoefficients:
  assumes "well_formed s" and "k < nx (params s) * ny (params s)"
  shows "compiled_at (updateCoefficients s) k"
proof -
  have len: "k < length (Ca s)" "k < length (Cb s)" "k < length (Da s)" "k < length (Db s)"
    "k < length (sigma s)" "k < length (epsilon s)" "k < length (mu s)"
    using assms by (simp_all add: well_formed_def Let_def)
  show ?thesis
    using len assms(2) changes_coefficients_D [OF updateCoefficients_changes [of s]]
    by (simp add: compiled_at_def updateCoefficients_arrays rd_nth coeff_Ca_def coeff_Cb_def)
qed

lemma params_setupPML [simp]: "params (setupPML s) = params s"
  using setupPML_changes [of s] by (simp add: changes_sigma_def)

lemma params_updateCoefficients [simp]: "params (updateCoefficients s) = params s"
  using updateCoefficients_changes [of s] by (simp add: changes_coefficients_def)

lemma params_rasterize [simp]: "params (rasterize ob m s) = params s"
  using rasterize_changes [of s ob m] by (simp add: changes_materials_def)

lemma params_construct [simp]: "params (construct p) = p"
  by (simp add: construct_def Let_def)

lemma params_addObstacle [simp]: "params (addObstacle ob s) = params s"
  by (simp add: addObstacle_def applyObstacle_def)

lemma params_removeObstacle [simp]: "params (removeObstacle i s) = params s"
  by (simp add: removeObstacle_def removeObstacleMaterial_def split: option.splits)

lemma construct_unfold:
  "construct p = updateCoefficients (setupPML
           \<lparr>params = p,
            Ez = replicate (nx p * ny p) (Fin 0), Hx = replicate (nx p * ny p) (Fin 0),
            Hy = replicate (nx p * ny p) (Fin 0),
            epsilon = replicate (nx p * ny p) (Fin 1), mu = replicate (nx p * ny p) (Fin 1),
            sigma = replicate (nx p * ny p) (Fin 0),
            Ca = replicate (nx p * ny p) (Fin 0), Cb = replicate (nx p * ny p) (Fin 0),
            Da = replicate (nx p * ny p) (Fin 0), Db = replicate (nx p * ny p) (Fin 0),
            sources = [], obstacles = [], time = 0\<rparr>)"
  by (simp add: construct_def Let_def)

text \<open>
  Claim C2, amended: after construction, after \<open>addObstacle\<close> and after \<open>removeObstacle\<close>, every
  cell \<open>k\<close> of the grid holds in \<open>Ca\<close>, \<open>Cb\<close> and \<open>Db\<close> what the 32-bit arrays store for
  \<open>(1 - \<sigma>\<sqdot>dt/(2\<epsilon>)) / (1 + \<sigma>\<sqdot>dt/(2\<epsilon>))\<close>, \<open>(dt/\<epsilon>) / (1 + \<sigma>\<sqdot>dt/(2\<epsilon>))\<close> and \<open>dt/\<mu>\<close>, computed in
  the arithmetic of JavaScript numbers from the material entries of that cell, and \<open>Da = 1\<close>.
  The stored value is the computed one while that lies within the range of the array type
  (\<open>Math_fround_in_range\<close>; rounding is not modelled), and \<open>\<plusminus>\<infinity>\<close> beyond it. (A \<open>removeObstacle\<close> of an
  identifier that no obstacle has leaves the state as it was, so the cell keeps the property it
  had.)
\<close>

theorem coefficients_compiled:
  "(k < nx p * ny p \<longrightarrow> compiled_at (construct p) k) \<and>
   (well_formed s \<and> k < nx (params s) * ny (params s) \<longrightarrow>
      compiled_at (addObstacle ob s) k \<and>
      (compiled_at s k \<longrightarrow> compiled_at (removeObstacle i s) k))"
proof (intro conjI impI)
  assume "k < nx p * ny p"
  then show "compiled_at (construct p) k"
    unfolding construct_unfold
    by (intro compiled_updateCoefficients well_formed_setupPML) (simp_all add: well_formed_def)
next
  assume a: "well_formed s \<and> k < nx (params s) * ny (params s)"
  then show "compiled_at (addObstacle ob s) k"
    unfolding addObstacle_def applyObstacle_def
    by (intro compiled_updateCoefficients well_formed_setupPML well_formed_rasterize) simp_all
  assume "compiled_at s k"
  then show "compiled_at (removeObstacle i s) k"
    using a unfolding removeObstacle_def removeObstacleMaterial_def
    by (auto split: option.splits
        intro!: compiled_updateCoefficients well_formed_setupPML simp: well_formed_rasterize)
qed

theorem coefficients_compiled_witness:
  "compiled_at (construct grid3) 4 \<and> compiled_at (addObstacle glass (construct grid3)) 4 \<and>
   compiled_at (removeObstacle ''glass'' (addObstacle glass (construct grid3))) 4"
  using coefficients_compiled [of 4 grid3 "construct grid3" glass "''glass''"]
    coefficients_compiled [of 4 grid3 "addObstacle glass (construct grid3)" glass "''glass''"]
    well_formed_construct [of grid3]
    well_formed_addObstacle [OF well_formed_construct [of grid3], of glass]
  by (simp add: grid3_def)

subsection \<open>Re-grading the PML\<close>

lemma pml_merged_compiled: "pml_merged (updateCoefficients (setupPML s))"
proof -
  have "sigma (setupPML (updateCoefficients (setupPML s))) = sigma (setupPML (setupPML s))"
    using changes_coefficients_D [OF updateCoefficients_changes [of "setupPML s"]]
    by (intro sigma_setupPML_cong) simp_all
  then show ?thesis
    using changes_coefficients_D(4) [OF updateCoefficients_changes [of "setupPML s"]]
    by (simp add: pml_merged_def setupPML_idem)
qed

lemma sigma_reset: "sigma (reset s) = sigma (setupPML s)"
  unfolding reset_def by (rule sigma_setupPML_cong) simp_all

text \<open>
  Claim C9: \<open>setupPML\<close> is idempotent. A state in which the overlay has been merged keeps its
  \<open>sigma\<close> array under a further \<open>setupPML\<close>; construction and \<open>addObstacle\<close> produce such
  states, \<open>removeObstacle\<close> keeps them such, and in such a state \<open>reset\<close> leaves \<open>sigma\<close> as it is.
\<close>

theorem setupPML_idempotent:
  "setupPML (setupPML s) = setupPML s \<and>
   pml_merged (construct p) \<and> pml_merged (addObstacle ob s) \<and>
   (pml_merged s \<longrightarrow> pml_merged (removeObstacle i s) \<and> sigma (reset s) = sigma s)"
proof (intro conjI impI)
  show "setupPML (setupPML s) = setupPML s" by (rule setupPML_idem)
  show "pml_merged (construct p)" unfolding construct_unfold by (rule pml_merged_compiled)
  show "pml_merged (addObstacle ob s)" unfolding addObstacle_def by (rule pml_merged_compiled)
  assume m: "pml_merged s"
  show "pml_merged (removeObstacle i s)"
    using m by (simp add: removeObstacle_def pml_merged_compiled split: option.splits)
  show "sigma (reset s) = sigma s" using m by (simp add: sigma_reset pml_merged_def)
qed

theorem setupPML_idempotent_witness:
  "pml_merged (construct grid4) \<and>
   pml_merged (removeObstacle ''glass'' (construct grid4)) \<and>
   sigma (reset (construct grid4)) = sigma (construct grid4)"
  using setupPML_idempotent [of "construct grid4" grid4 glass "''glass''"] by simp

subsection \<open>The boundary clamp on an example\<close>

lemma params_addSource [simp]: "params (addSource src s) = params s"
  by (simp add: addSource_def)

theorem step_rim_zero_witness:
  "well_formed (addSource dipole1 (construct grid3)) \<and> on_rim grid3 0 1 \<and>
   Ez (step (addSource dipole1 (construct grid3))) ! 3 = Fin 0"
  using step_rim_zero [of "addSource dipole1 (construct grid3)" 0 1]
    well_formed_addSource [OF well_formed_construct [of grid3], of dipole1]
  by (simp add: grid3_def on_rim_def)

subsection \<open>The PML profile on finite, positive spatial steps\<close>

lemma Math_pow_Fin [simp]: "Math_pow (Fin a) n = Fin (a ^ n)"
  by (cases n) simp_all

lemma Math_min_Fin [simp]: "Math_min (Fin a) (Fin b) = Fin (min a b)"
  by auto

lemma Math_max_Fin [simp]: "Math_max (Fin a) (Fin b) = Fin (max a b)"
  by auto

lemma eps0_Fin: "eps0 = Fin (8854187817 / 10 ^ 21)"
  by (simp add: eps0_def)

lemma mu0_Fin: "mu0 = Fin (4 * pi / 10 ^ 7)"
  by (simp add: mu0_def Math_PI_def)

lemma eta0_Fin: "\<exists>e \<ge> 1. eta0 = Fin e"
proof -
  have "(1::real) \<le> 4 * 2 / 10 ^ 7 / (8854187817 / 10 ^ 21)" by simp
  also have "\<dots> \<le> 4 * pi / 10 ^ 7 / (8854187817 / 10 ^ 21)"
    using pi_ge_two by (intro divide_right_mono mult_left_mono) simp_all
  finally have q: "(1::real) \<le> 4 * pi / 10 ^ 7 / (8854187817 / 10 ^ 21)" .
  then have "1 \<le> sqrt (4 * pi / 10 ^ 7 / (8854187817 / 10 ^ 21))" by simp
  moreover have "eta0 = Fin (sqrt (4 * pi / 10 ^ 7 / (8854187817 / 10 ^ 21)))"
    using q unfolding eta0_def mu0_Fin eps0_Fin by simp
  ultimately show ?thesis by blast
qed

lemma sigmaMax_Fin:
  assumes "0 < T" "0 < d"
  shows "\<exists>c > 0. c \<le> 2 * 10 ^ 6 / (real T * d) \<and> sigmaMax T d = Fin c"
proof -
  obtain e where e: "1 \<le> e" "eta0 = Fin e" using eta0_Fin by blast
  have l: "ln (1 / 10 ^ 6 :: real) < 0" by (simp add: ln_div)
  have l': "- ln (1 / 10 ^ 6 :: real) \<le> 10 ^ 6"
  proof -
    have "- ln (1 / 10 ^ 6 :: real) = ln (10 ^ 6)" by (simp add: ln_div)
    also have "\<dots> \<le> 10 ^ 6 - 1" by (rule ln_le_minus_one) simp
    finally show ?thesis by simp
  qed
  have Td: "0 < real T * d" using assms by simp
  have den: "0 < 2 * e * real T * d" using assms e by simp
  let ?c = "- (3 + 1) * ln (1 / 10 ^ 6) / (2 * e * real T * d)"
  have "sigmaMax T d = Fin ?c"
    using assms e(1) by (simp add: sigmaMax_def e(2) pmlOrder_def pmlReflection_def)
  moreover have "0 < ?c"
    using l den by (intro divide_pos_pos) simp_all
  moreover have "?c \<le> 2 * 10 ^ 6 / (real T * d)"
  proof -
    have "?c \<le> 4 * 10 ^ 6 / (2 * e * real T * d)"
      using l' den by (intro divide_right_mono) simp_all
    also have "\<dots> \<le> 4 * 10 ^ 6 / (2 * (real T * d))"
    proof (rule frac_le)
      have "1 * (real T * d) \<le> e * (real T * d)"
        using e(1) Td by (intro mult_right_mono) simp_all
      then show "2 * (real T * d) \<le> 2 * e * real T * d" by simp
    qed (use Td in simp_all)
    also have "\<dots> = 2 * 10 ^ 6 / (real T * d)" by simp
    finally show ?thesis .
  qed
  ultimately show ?thesis by blast
qed

lemma pml_axis_Fin:
  assumes "0 < T"
  shows "pml_axis T n (Fin c) i = Fin (axis_profile T n c i)"
  using assms by (simp add: pml_axis_def axis_profile_def Let_def pmlOrder_def)

lemma axis_profile_nonneg:
  assumes "0 < T" "0 \<le> c" "4 * T \<le> n"
  shows "0 \<le> axis_profile T n c i"
proof -
  have "0 \<le> (real i - (real n - real T - 1)) / real T" if "int n - int T \<le> int i"
  proof -
    have "real n - real T \<le> real i" using that by linarith
    then show ?thesis using assms(1) by simp
  qed
  then show ?thesis using assms by (auto simp: axis_profile_def)
qed

lemma axis_profile_inner:
  assumes "T \<le> i" "i + T < n"
  shows "axis_profile T n c i = 0"
  using assms by (auto simp: axis_profile_def)

lemma axis_profile_left:
  assumes "0 < T" "0 \<le> c" "4 * T \<le> n" "i < T"
  shows "axis_profile T n c (Suc i) \<le> axis_profile T n c i"
proof (cases "Suc i < T")
  case True
  have "((real T - real (Suc i)) / real T) ^ 3 \<le> ((real T - real i) / real T) ^ 3"
    using True assms(1) by (intro power_mono divide_right_mono) simp_all
  then show ?thesis
    using True assms by (simp add: axis_profile_def mult_left_mono)
next
  case False
  then have "Suc i = T" using assms(4) by simp
  then have "axis_profile T n c (Suc i) = 0"
    using assms(1,3) by (intro axis_profile_inner) simp_all
  then show ?thesis using axis_profile_nonneg [OF assms(1-3), of i] by simp
qed

lemma axis_profile_right:
  assumes "0 < T" "0 \<le> c" "4 * T \<le> n" "n - T \<le> i"
  shows "axis_profile T n c i \<le> axis_profile T n c (Suc i)"
proof -
  have i: "\<not> i < T" "\<not> Suc i < T" "int n - int T \<le> int i" "int n - int T \<le> int (Suc i)"
    using assms by linarith+
  let ?r = "\<lambda>i. (real i - (real n - real T - 1)) / real T"
  have r0: "0 \<le> ?r i" using assms i by (simp add: of_nat_diff)
  have "?r i \<le> ?r (Suc i)" using assms(1) by (intro divide_right_mono) simp_all
  then have "(min (?r i) 1) ^ 3 \<le> (min (?r (Suc i)) 1) ^ 3"
    using r0 by (intro power_mono) auto
  then show ?thesis using i assms(2) by (simp add: axis_profile_def mult_left_mono)
qed

lemma sigma_construct:
  assumes "k < nx p * ny p"
  shows "sigma (construct p) ! k = pml_merge p k (Fin 0)"
proof -
  let ?s0 = "\<lparr>params = p,
            Ez = replicate (nx p * ny p) (Fin 0), Hx = replicate (nx p * ny p) (Fin 0),
            Hy = replicate (nx p * ny p) (Fin 0),
            epsilon = replicate (nx p * ny p) (Fin 1), mu = replicate (nx p * ny p) (Fin 1),
            sigma = replicate (nx p * ny p) (Fin 0),
            Ca = replicate (nx p * ny p) (Fin 0), Cb = replicate (nx p * ny p) (Fin 0),
            Da = replicate (nx p * ny p) (Fin 0), Db = replicate (nx p * ny p) (Fin 0),
            sources = [], obstacles = [], time = 0\<rparr>"
  have "sigma (construct p) = sigma (setupPML ?s0)"
    unfolding construct_unfold
    using changes_coefficients_D(4) [OF updateCoefficients_changes [of "setupPML ?s0"]] .
  then show ?thesis using assms by (simp add: sigma_setupPML)
qed

lemma cell_div_mod:
  assumes "i < n"
  shows "(j * n + i) div n = j" "(j * n + i) mod n = (i::nat)"
  using assms by simp_all

lemma cell_less:
  assumes "i < n" "j < m"
  shows "j * n + i < n * (m::nat)"
proof -
  have "j * n + i < Suc j * n" using assms(1) by simp
  also have "\<dots> \<le> m * n" using assms(2) by (intro mult_le_mono1) simp
  finally show ?thesis by (simp add: mult.commute)
qed

lemma sigma_construct_profile:
  assumes "0 < pml_thickness p" "0 < dx p" "0 < dy p"
  shows "\<exists>cx > 0. \<exists>cy > 0.
           cx \<le> 2 * 10 ^ 6 / (real (pml_thickness p) * dx p) \<and>
           cy \<le> 2 * 10 ^ 6 / (real (pml_thickness p) * dy p) \<and>
           (\<forall>i' < nx p. \<forall>j' < ny p.
           sigma (construct p) ! (j' * nx p + i') =
             Math_fround (Fin (axis_profile (pml_thickness p) (nx p) cx i'
                  + axis_profile (pml_thickness p) (ny p) cy j')))"
proof -
  let ?T = "pml_thickness p"
  obtain cx where cx: "0 < cx" "sigmaMax ?T (dx p) = Fin cx"
    and bx: "cx \<le> 2 * 10 ^ 6 / (real ?T * dx p)"
    using sigmaMax_Fin [OF assms(1,2)] by blast
  obtain cy where cy: "0 < cy" "sigmaMax ?T (dy p) = Fin cy"
    and by': "cy \<le> 2 * 10 ^ 6 / (real ?T * dy p)"
    using sigmaMax_Fin [OF assms(1,3)] by blast
  have T2: "4 * ?T \<le> nx p" "4 * ?T \<le> ny p"
    by (simp_all add: pml_thickness_def)
  have "sigma (construct p) ! (j' * nx p + i') =
             Math_fround (Fin (axis_profile ?T (nx p) cx i' + axis_profile ?T (ny p) cy j'))"
    if "i' < nx p" "j' < ny p" for i' j'
  proof -
    have ps: "pmlSigma p i' j' = Fin (axis_profile ?T (nx p) cx i' + axis_profile ?T (ny p) cy j')"
      using assms(1) by (simp add: pmlSigma_def Let_def cx cy pml_axis_Fin)
    have nn: "0 \<le> axis_profile ?T (nx p) cx i' + axis_profile ?T (ny p) cy j'"
      using axis_profile_nonneg [OF assms(1) _ T2(1), of cx i']
        axis_profile_nonneg [OF assms(1) _ T2(2), of cy j'] cx(1) cy(1) by simp
    show ?thesis
      using that nn assms(1)
      by (auto simp: sigma_construct cell_less pml_merge_def cell_div_mod ps max_def)
  qed
  then show ?thesis using cx(1) cy(1) bx by' by blast
qed

text \<open>
  Claim C7: on a freshly constructed solver whose PML layer is 20 cells thick, with positive
  spatial steps, \<open>sigma\<close> does not decrease from a cell of the left or top layer to its neighbour
  nearer the edge, nor from a cell of the right or bottom layer to its neighbour nearer the
  edge, along every row and column; and \<open>sigma\<close> is exactly 0 at every cell that lies in none
  of the four layers.
\<close>

theorem pml_monotone:
  assumes "pml_thickness p = 20" and "0 < dx p" and "0 < dy p" and "i < nx p" and "j < ny p"
  shows "(i < 20 \<longrightarrow>
            sigma (construct p) ! (j * nx p + Suc i) \<le> sigma (construct p) ! (j * nx p + i)) \<and>
         (nx p - 20 \<le> i \<and> Suc i < nx p \<longrightarrow>
            sigma (construct p) ! (j * nx p + i) \<le> sigma (construct p) ! (j * nx p + Suc i)) \<and>
         (j < 20 \<longrightarrow>
            sigma (construct p) ! (Suc j * nx p + i) \<le> sigma (construct p) ! (j * nx p + i)) \<and>
         (ny p - 20 \<le> j \<and> Suc j < ny p \<longrightarrow>
            sigma (construct p) ! (j * nx p + i) \<le> sigma (construct p) ! (Suc j * nx p + i)) \<and>
         (20 \<le> i \<and> i + 20 < nx p \<and> 20 \<le> j \<and> j + 20 < ny p \<longrightarrow>
            sigma (construct p) ! (j * nx p + i) = Fin 0)"
proof -
  let ?T = "pml_thickness p"
  have T: "0 < ?T" "4 * ?T \<le> nx p" "4 * ?T \<le> ny p"
    using assms(1) by (simp_all add: pml_thickness_def)
  have big: "80 \<le> nx p" "80 \<le> ny p" using T(2,3) assms(1) by simp_all
  obtain cx cy where c: "0 < cx" "0 < cy"
    and sig: "\<And>i' j'. i' < nx p \<Longrightarrow> j' < ny p \<Longrightarrow>
           sigma (construct p) ! (j' * nx p + i') =
             Math_fround (Fin (axis_profile ?T (nx p) cx i' + axis_profile ?T (ny p) cy j'))"
    using sigma_construct_profile [OF T(1) assms(2,3)] by blast
  have cc: "0 \<le> cx" "0 \<le> cy" using c by simp_all
  have here: "sigma (construct p) ! (j * nx p + i) =
      Math_fround (Fin (axis_profile ?T (nx p) cx i + axis_profile ?T (ny p) cy j))"
    using assms(4,5) by (rule sig)
  show ?thesis
  proof (intro conjI impI)
    assume l: "i < 20"
    then have "Suc i < nx p" using big by simp
    then have "sigma (construct p) ! (j * nx p + Suc i) =
      Math_fround (Fin (axis_profile ?T (nx p) cx (Suc i) + axis_profile ?T (ny p) cy j))"
      using assms(5) by (rule sig)
    moreover have "axis_profile ?T (nx p) cx (Suc i) \<le> axis_profile ?T (nx p) cx i"
      using l assms(1) by (intro axis_profile_left [OF T(1) cc(1) T(2)]) simp
    ultimately show
      "sigma (construct p) ! (j * nx p + Suc i) \<le> sigma (construct p) ! (j * nx p + i)"
      unfolding here by (simp add: Math_fround_mono)
  next
    assume a: "nx p - 20 \<le> i \<and> Suc i < nx p"
    then have "sigma (construct p) ! (j * nx p + Suc i) =
      Math_fround (Fin (axis_profile ?T (nx p) cx (Suc i) + axis_profile ?T (ny p) cy j))"
      using assms(5) by (intro sig) simp_all
    moreover have "axis_profile ?T (nx p) cx i \<le> axis_profile ?T (nx p) cx (Suc i)"
      using a assms(1) by (intro axis_profile_right [OF T(1) cc(1) T(2)]) simp
    ultimately show
      "sigma (construct p) ! (j * nx p + i) \<le> sigma (construct p) ! (j * nx p + Suc i)"
      unfolding here by (simp add: Math_fround_mono)
  next
    assume l: "j < 20"
    then have "Suc j < ny p" using big by simp
    then have "sigma (construct p) ! (Suc j * nx p + i) =
      Math_fround (Fin (axis_profile ?T (nx p) cx i + axis_profile ?T (ny p) cy (Suc j)))"
      using assms(4) by (intro sig)
    moreover have "axis_profile ?T (ny p) cy (Suc j) \<le> axis_profile ?T (ny p) cy j"
      using l assms(1) by (intro axis_profile_left [OF T(1) cc(2) T(3)]) simp
    ultimately show
      "sigma (construct p) ! (Suc j * nx p + i) \<le> sigma (construct p) ! (j * nx p + i)"
      unfolding here by (simp add: Math_fround_mono)
  next
    assume a: "ny p - 20 \<le> j \<and> Suc j < ny p"
    then have "sigma (construct p) ! (Suc j * nx p + i) =
      Math_fround (Fin (axis_profile ?T (nx p) cx i + axis_profile ?T (ny p) cy (Suc j)))"
      using assms(4) by (intro sig) simp_all
    moreover have "axis_profile ?T (ny p) cy j \<le> axis_profile ?T (ny p) cy (Suc j)"
      using a assms(1) by (intro axis_profile_right [OF T(1) cc(2) T(3)]) simp
    ultimately show
      "sigma (construct p) ! (j * nx p + i) \<le> sigma (construct p) ! (Suc j * nx p + i)"
      unfolding here by (simp add: Math_fround_mono)
  next
    assume a: "20 \<le> i \<and> i + 20 < nx p \<and> 20 \<le> j \<and> j + 20 < ny p"
    then show "sigma (construct p) ! (j * nx p + i) = Fin 0"
      unfolding here using assms(1) by (simp add: axis_profile_inner)
  qed
qed

theorem pml_monotone_witness:
  "pml_thickness grid80 = 20 \<and>
   sigma (construct grid80) ! 401 \<le> sigma (construct grid80) ! 400 \<and>
   sigma (construct grid80) ! 480 \<le> sigma (construct grid80) ! 400 \<and>
   sigma (construct grid80) ! 478 \<le> sigma (construct grid80) ! 479 \<and>
   sigma (construct grid80) ! 6239 \<le> sigma (construct grid80) ! 6319 \<and>
   sigma (construct grid80) ! 3240 = Fin 0"
  using pml_monotone [of grid80 0 5] pml_monotone [of grid80 78 5]
    pml_monotone [of grid80 79 77] pml_monotone [of grid80 40 40]
  by (simp add: grid80_def pml_thickness_def pmlThickness_def)

subsection \<open>The rasterizer, cell by cell\<close>

lemma distinct_box_indices:
  "distinct (map (\<lambda>(j, i). nat (j * int n + i))
     (filter (\<lambda>(j, i). in_grid p i j \<and> int n = int (nx p)) (List.product [j0..j1] [i0..i1])))"
proof -
  have "inj_on (\<lambda>(j, i). nat (j * int n + i))
          (set (filter (\<lambda>(j, i). in_grid p i j \<and> int n = int (nx p)) (List.product [j0..j1] [i0..i1])))"
  proof (rule inj_onI)
    fix a b
    assume a: "a \<in> set (filter (\<lambda>(j, i). in_grid p i j \<and> int n = int (nx p)) (List.product [j0..j1] [i0..i1]))"
      and b: "b \<in> set (filter (\<lambda>(j, i). in_grid p i j \<and> int n = int (nx p)) (List.product [j0..j1] [i0..i1]))"
      and eq: "(case a of (j, i) \<Rightarrow> nat (j * int n + i)) = (case b of (j, i) \<Rightarrow> nat (j * int n + i))"
    obtain j i where ji: "a = (j, i)" by (cases a)
    obtain j' i' where ji': "b = (j', i')" by (cases b)
    have ga: "0 \<le> i" "i < int n" "0 \<le> j" using a ji by (auto simp: in_grid_def)
    have gb: "0 \<le> i'" "i' < int n" "0 \<le> j'" using b ji' by (auto simp: in_grid_def)
    have "nat (j * int n + i) = nat j * n + nat i"
      using ga by (simp add: nat_add_distrib nat_mult_distrib)
    moreover have "nat (j' * int n + i') = nat j' * n + nat i'"
      using gb by (simp add: nat_add_distrib nat_mult_distrib)
    ultimately have "nat j * n + nat i = nat j' * n + nat i'" using eq ji ji' by simp
    moreover have "nat i < n" "nat i' < n" using ga gb by simp_all
    ultimately have "nat j = nat j' \<and> nat i = nat i'" by (intro cell_index_inj)
    then show "a = b" using ga gb ji ji' by (simp add: eq_nat_nat_iff)
  qed
  then show ?thesis by (simp add: distinct_map distinct_product)
qed

lemma rasterize_array:
  fixes g :: "MaxwellSolver \<Rightarrow> number list"
  assumes paint: "\<And>i j s'. g (paint m i j s') =
      (if in_grid (params s') i j then wri (g s') (j * int (nx (params s')) + i) v else g s')"
  shows "g (rasterize ob m s) =
           map (\<lambda>k. if covers (params s) ob k then v else g s ! k) [0..<length (g s)]"
proof -
  let ?p = "params s"
  let ?n = "nx ?p"
  let ?x1 = "\<lfloor>Obstacle.x ob\<rfloor>" and ?x2 = "\<lfloor>Obstacle.x ob + Obstacle.width ob\<rfloor>"
  let ?y1 = "\<lfloor>Obstacle.y ob\<rfloor>" and ?y2 = "\<lfloor>Obstacle.y ob + height ob\<rfloor>"
  let ?ps = "List.product [?y1..?y2 - 1] [?x1..?x2 - 1]"
  let ?B = "\<lambda>(j, i). paint m i j" and ?idx = "\<lambda>(j, i). nat (j * int ?n + i)"
  let ?en = "\<lambda>(j, i). in_grid ?p i j \<and> int ?n = int (nx ?p)"
  let ?r = "fold ?B ?ps s"
  have r: "rasterize ob m s = ?r"
    by (simp add: rasterize_def Let_def for_box_product)
  have main: "params ?r = ?p \<and> length (g ?r) = length (g s) \<and>
         (\<forall>k < length (g s).
            (\<forall>q \<in> set ?ps. ?en q \<longrightarrow> ?idx q = k \<longrightarrow> g ?r ! k = (\<lambda>_ _. v) q (g s ! k)) \<and>
            ((\<forall>q \<in> set ?ps. ?en q \<longrightarrow> ?idx q \<noteq> k) \<longrightarrow> g ?r ! k = g s ! k))"
  proof (rule fold_pointwise [where I = "\<lambda>s'. params s' = ?p"])
    show "params (?B q s') = ?p \<and>
            g (?B q s') = (if ?en q then (g s')[?idx q := (\<lambda>_ _. v) q (rd (g s') (?idx q))] else g s')"
      if "q \<in> set ?ps" "params s' = ?p" for q s'
    proof -
      obtain j i where ji: "q = (j, i)" by (cases q)
      have "params (paint m i j s') = ?p" using that(2) by (simp add: paint_def Let_def)
      moreover have "g (paint m i j s') = (if in_grid ?p i j then (g s')[nat (j * int ?n + i) := v] else g s')"
      proof (cases "in_grid ?p i j")
        case True
        then have "0 \<le> j * int ?n + i" by (simp add: in_grid_def)
        then show ?thesis using True that(2) by (simp add: paint wri_def)
      next
        case False
        then show ?thesis using that(2) by (simp add: paint)
      qed
      ultimately show ?thesis using ji by simp
    qed
    show "distinct (map ?idx (filter ?en ?ps))" by (rule distinct_box_indices)
  qed simp
  show ?thesis
    unfolding r
  proof (rule nth_equalityI)
    show "length (g ?r) = length (map (\<lambda>k. if covers ?p ob k then v else g s ! k) [0..<length (g s)])"
      using main by simp
  next
    fix k assume "k < length (g ?r)"
    then have k: "k < length (g s)" using main by simp
    show "g ?r ! k = map (\<lambda>k. if covers ?p ob k then v else g s ! k) [0..<length (g s)] ! k"
    proof (cases "covers ?p ob k")
      case True
      let ?q = "(int (k div ?n), int (k mod ?n))"
      have n0: "0 < ?n" using True by (cases "?n = 0") (simp_all add: covers_def)
      have "k div ?n < ny ?p" using True in_grid_iff [of k ?n "ny ?p"] by (simp add: covers_def)
      then have "?q \<in> set ?ps" "?en ?q" using True n0 by (simp_all add: covers_def in_grid_def)
      moreover have "?idx ?q = k"
        by (simp add: nat_add_distrib nat_mult_distrib flip: of_nat_mult of_nat_add)
      ultimately have "g ?r ! k = v" using main k by blast
      then show ?thesis using True k by simp
    next
      case False
      have "\<forall>q \<in> set ?ps. ?en q \<longrightarrow> ?idx q \<noteq> k"
      proof (intro ballI impI)
        fix q assume q: "q \<in> set ?ps" "?en q"
        obtain j i where ji: "q = (j, i)" by (cases q)
        have gq: "0 \<le> i" "i < int ?n" "0 \<le> j" "j < int (ny ?p)"
          using q ji by (auto simp: in_grid_def)
        have e: "nat (j * int ?n + i) = nat j * ?n + nat i"
          using gq by (simp add: nat_add_distrib nat_mult_distrib)
        have lt: "nat i < ?n" "nat j < ny ?p" using gq by simp_all
        show "?idx q \<noteq> k"
        proof
          assume "?idx q = k"
          then have kk: "k = nat j * ?n + nat i" using ji e by simp
          then have "k mod ?n = nat i" "k div ?n = nat j" using lt by simp_all
          moreover have "k < ?n * ny ?p" unfolding kk using lt by (rule cell_less)
          ultimately have "covers ?p ob k" using q(1) ji gq by (simp add: covers_def)
          then show False using False by simp
        qed
      qed
      then have "g ?r ! k = g s ! k" using main k by blast
      then show ?thesis using False k by simp
    qed
  qed
qed

lemma rasterize_arrays:
  "epsilon (rasterize ob m s) =
     map (\<lambda>k. if covers (params s) ob k then Math_fround (Fin (Material.epsilon m))
               else epsilon s ! k)
       [0..<length (epsilon s)]"
  "mu (rasterize ob m s) =
     map (\<lambda>k. if covers (params s) ob k then Math_fround (Fin (Material.mu m)) else mu s ! k)
       [0..<length (mu s)]"
  "sigma (rasterize ob m s) =
     map (\<lambda>k. if covers (params s) ob k then Math_fround (Fin (Material.sigma m))
               else sigma s ! k)
       [0..<length (sigma s)]"
  by (rule rasterize_array; simp add: paint_def Let_def)+

subsection \<open>The electric update, cell by cell\<close>

lemma Ez_updateE:
  "Ez (updateE s) =
     map (\<lambda>k. if 1 \<le> k div nx (params s) \<and> k div nx (params s) < ny (params s) \<and>
                  1 \<le> k mod nx (params s) \<and> k mod nx (params s) < nx (params s)
               then Math_fround (rd (Ca s) k * Ez s ! k + rd (Cb s) k * curlH s k)
               else Ez s ! k) [0..<length (Ez s)]"
proof -
  let ?n = "nx (params s)" and ?m = "ny (params s)"
  let ?I = "\<lambda>s'. params s' = params s \<and> Hx s' = Hx s \<and> Hy s' = Hy s \<and> Ca s' = Ca s \<and> Cb s' = Cb s"
  have "Ez (for_grid 1 ?m 1 ?n updateE_cell s) =
          map (\<lambda>k. if 1 \<le> k div ?n \<and> k div ?n < ?m \<and> 1 \<le> k mod ?n \<and> k mod ?n < ?n
                    then (\<lambda>i j old. Math_fround (rd (Ca s) (j * ?n + i) * old
                                     + rd (Cb s) (j * ?n + i) * curlH s (j * ?n + i)))
                           (k mod ?n) (k div ?n) (Ez s ! k)
                    else Ez s ! k) [0..<length (Ez s)]"
    by (rule for_grid_pointwise(2) [where I = ?I])
       (simp_all add: updateE_cell_def Let_def curlH_def)
  then show ?thesis by (simp add: updateE_def cong: map_cong)
qed

lemma interior_not_written:
  assumes "0 < i" "Suc i < n" "0 < j" "Suc j < m"
  shows "\<not> ((\<exists>i' < n. int (j * n + i) = int i' \<or> int (j * n + i) = (int m - 1) * int n + int i') \<or>
         (\<exists>j' < m. int (j * n + i) = int j' * int n \<or> int (j * n + i) = int j' * int n + int n - 1))"
proof -
  have i: "i < n" using assms(2) by simp
  obtain m' where m: "m = Suc m'" using assms(4) by (cases m) auto
  obtain n' where n: "n = Suc n'" using assms(2) by (cases n) auto
  have 1: "j * n + i \<noteq> i'" if "i' < n" for i'
  proof -
    have "0 * n + i' \<noteq> j * n + i" using cell_index_inj [OF that i, of 0 j] assms(3) by auto
    then show ?thesis by simp
  qed
  have 2: "j * n + i \<noteq> m' * n + i'" if "i' < n" for i'
    using cell_index_inj [OF i that, of j m'] assms(4) m by auto
  have 3: "j * n + i \<noteq> j' * n + 0" for j'
    using cell_index_inj [OF i, of 0 j j'] assms(1,2) by auto
  have 4: "j * n + i \<noteq> j' * n + n'" for j'
    using cell_index_inj [OF i, of n' j j'] assms(2) n by auto
  have a: "(int m - 1) * int n + int i' = int (m' * n + i')" for i' by (simp add: m algebra_simps)
  have b: "int j' * int n + int n - 1 = int (j' * n + n')" for j' by (simp add: n algebra_simps)
  have n1: "int (j * n + i) \<noteq> int i'" if "i' < n" for i'
    using 1 [OF that] by (simp only: of_nat_eq_iff) simp
  have n2: "int (j * n + i) \<noteq> (int m - 1) * int n + int i'" if "i' < n" for i'
    using 2 [OF that] by (simp only: a of_nat_eq_iff) simp
  have n3: "int (j * n + i) \<noteq> int j' * int n" for j'
  proof -
    have "int j' * int n = int (j' * n + 0)" by simp
    then show ?thesis using 3 [of j'] by (simp only: of_nat_eq_iff) simp
  qed
  have n4: "int (j * n + i) \<noteq> int j' * int n + int n - 1" for j'
    using 4 [of j'] by (simp only: b of_nat_eq_iff) simp
  show ?thesis using n1 n2 n3 n4 by blast
qed

lemma Ez_applyBoundaries_interior:
  assumes "0 < i" "Suc i < nx (params s)" "0 < j" "Suc j < ny (params s)"
    and "j * nx (params s) + i < length (Ez s)"
  shows "Ez (applyBoundaries s) ! (j * nx (params s) + i) = Ez s ! (j * nx (params s) + i)"
  unfolding Ez_applyBoundaries [OF assms(5)]
  using interior_not_written [OF assms(1-4)] by (simp only: if_False)

subsection \<open>Quiescence\<close>

lemma NaN_absorbs [simp]:
  "NaN * v = NaN" "v * NaN = NaN" "NaN + v = NaN" "v + NaN = NaN" "NaN - v = NaN" "v - NaN = NaN"
  "NaN / v = NaN" "v / NaN = NaN"
  by (cases v; simp add: signed_inf_def minus_number_def)+

lemma all_zero_rd: "list_all (\<lambda>v. v = Fin 0) xs \<Longrightarrow> k < length xs \<Longrightarrow> rd xs k = Fin 0"
  by (simp add: rd_def list_all_length)

lemma all_fin_rd: "list_all is_fin xs \<Longrightarrow> k < length xs \<Longrightarrow> \<exists>a. rd xs k = Fin a"
  by (simp add: rd_def list_all_length is_fin_iff)

lemma list_all_update: "list_all P xs \<Longrightarrow> P v \<Longrightarrow> list_all P (xs[k := v])"
  by (auto simp: list_all_iff dest: set_update_subset_insert [THEN subsetD])

lemma list_all_wri: "list_all P xs \<Longrightarrow> P v \<Longrightarrow> list_all P (wri xs k v)"
  by (simp add: wri_def list_all_update)

text \<open>The invariant of a step without sources.\<close>

lemma quiet_updateHx_cell:
  assumes "well_formed s" "zero_fields s" "list_all is_fin (Da s) \<and> list_all is_fin (Db s)" "dy (params s) \<noteq> 0"
    and "i < nx (params s)" "Suc j < ny (params s)"
  shows "Hx (updateHx_cell i j s) = (Hx s)[j * nx (params s) + i := Fin 0]"
proof -
  let ?n = "nx (params s)" and ?k = "j * nx (params s) + i"
  have k: "?k + ?n < ?n * ny (params s)"
    using cell_less [OF assms(5,6)] by (simp add: algebra_simps)
  then have k': "?k < ?n * ny (params s)" by simp
  have len: "length (Ez s) = ?n * ny (params s)" "length (Hx s) = ?n * ny (params s)"
    "length (Da s) = ?n * ny (params s)" "length (Db s) = ?n * ny (params s)"
    using assms(1) by (simp_all add: well_formed_def Let_def)
  obtain a b where ab: "rd (Da s) ?k = Fin a" "rd (Db s) ?k = Fin b"
    using all_fin_rd [of "Da s" ?k] all_fin_rd [of "Db s" ?k] assms(3) k' len
    by auto
  have z: "rd (Ez s) (?k + ?n) = Fin 0" "rd (Ez s) ?k = Fin 0" "rd (Hx s) ?k = Fin 0"
    using assms(2) k k' len by (simp_all add: zero_fields_def all_zero_rd)
  show ?thesis
    using assms(4) by (simp add: updateHx_cell_def Let_def ab z)
qed

lemma quiet_updateHy_cell:
  assumes "well_formed s" "zero_fields s" "list_all is_fin (Da s) \<and> list_all is_fin (Db s)" "dx (params s) \<noteq> 0"
    and "Suc i < nx (params s)" "j < ny (params s)"
  shows "Hy (updateHy_cell i j s) = (Hy s)[j * nx (params s) + i := Fin 0]"
proof -
  let ?n = "nx (params s)" and ?k = "j * nx (params s) + i"
  have k: "Suc ?k < ?n * ny (params s)"
    using cell_less [OF assms(5,6)] by simp
  then have k': "?k < ?n * ny (params s)" by simp
  have len: "length (Ez s) = ?n * ny (params s)" "length (Hy s) = ?n * ny (params s)"
    "length (Da s) = ?n * ny (params s)" "length (Db s) = ?n * ny (params s)"
    using assms(1) by (simp_all add: well_formed_def Let_def)
  obtain a b where ab: "rd (Da s) ?k = Fin a" "rd (Db s) ?k = Fin b"
    using all_fin_rd [of "Da s" ?k] all_fin_rd [of "Db s" ?k] assms(3) k' len
    by auto
  have z: "rd (Ez s) (Suc ?k) = Fin 0" "rd (Ez s) ?k = Fin 0" "rd (Hy s) ?k = Fin 0"
    using assms(2) k k' len by (simp_all add: zero_fields_def all_zero_rd)
  show ?thesis
    using assms(4) by (simp add: updateHy_cell_def Let_def ab z)
qed

lemma quiet_updateH_magnetic:
  assumes "well_formed s" "zero_fields s" "list_all is_fin (Da s) \<and> list_all is_fin (Db s)"
    "dx (params s) \<noteq> 0" "dy (params s) \<noteq> 0"
  shows "zero_fields (updateH s)"
proof -
  let ?Q = "\<lambda>s'. changes_fields s s' \<and> well_formed s' \<and> zero_fields s' \<and>
                 list_all is_fin (Da s') \<and> list_all is_fin (Db s')"
  have pres: "?Q (s'\<lparr>Hx := (Hx s')[k := Fin 0]\<rparr>)" "?Q (s'\<lparr>Hy := (Hy s')[k := Fin 0]\<rparr>)"
    if "?Q s'" for s' k
    using that
    by (auto simp: changes_fields_def well_formed_def zero_fields_def Let_def list_all_update)
  have Q0: "?Q s" using assms by (simp add: changes_fields_refl)
  let ?s1 = "for_grid 0 (ny (params s) - 1) 0 (nx (params s)) updateHx_cell s"
  have 1: "?Q ?s1"
  proof (rule for_grid_inv [where P = ?Q])
    show "?Q s" by (rule Q0)
  next
    fix i j s' assume a: "i < nx (params s)" "j < ny (params s) - 1" "?Q s'"
    then have p: "params s' = params s" by (simp add: changes_fields_def)
    have "updateHx_cell i j s' = s'\<lparr>Hx := Hx (updateHx_cell i j s')\<rparr>"
      by (simp add: updateHx_cell_def Let_def)
    moreover have "Hx (updateHx_cell i j s') = (Hx s')[j * nx (params s') + i := Fin 0]"
      using a assms(5) p by (intro quiet_updateHx_cell) simp_all
    ultimately have "updateHx_cell i j s' = s'\<lparr>Hx := (Hx s')[j * nx (params s') + i := Fin 0]\<rparr>"
      by simp
    then show "?Q (updateHx_cell i j s')" using pres(1) [OF a(3)] by simp
  qed
  have "?Q (for_grid 0 (ny (params s)) 0 (nx (params s) - 1) updateHy_cell ?s1)"
  proof (rule for_grid_inv [where P = ?Q])
    show "?Q ?s1" by (rule 1)
  next
    fix i j s' assume a: "i < nx (params s) - 1" "j < ny (params s)" "?Q s'"
    then have p: "params s' = params s" by (simp add: changes_fields_def)
    have "updateHy_cell i j s' = s'\<lparr>Hy := Hy (updateHy_cell i j s')\<rparr>"
      by (simp add: updateHy_cell_def Let_def)
    moreover have "Hy (updateHy_cell i j s') = (Hy s')[j * nx (params s') + i := Fin 0]"
      using a assms(4) p by (intro quiet_updateHy_cell) simp_all
    ultimately have "updateHy_cell i j s' = s'\<lparr>Hy := (Hy s')[j * nx (params s') + i := Fin 0]\<rparr>"
      by simp
    then show "?Q (updateHy_cell i j s')" using pres(2) [OF a(3)] by simp
  qed
  then show ?thesis by (simp add: updateH_def Let_def)
qed

lemma quiet_updateH:
  assumes "well_formed s" "zero_fields s" "finite_coefficients s"
    "dx (params s) \<noteq> 0" "dy (params s) \<noteq> 0"
  shows "zero_fields (updateH s)"
  using assms by (intro quiet_updateH_magnetic) (simp_all add: finite_coefficients_def)

lemma curlH_zero:
  assumes "list_all (\<lambda>v. v = Fin 0) (Hx s)" "list_all (\<lambda>v. v = Fin 0) (Hy s)"
    "k < length (Hx s)" "k < length (Hy s)" "dx (params s) \<noteq> 0" "dy (params s) \<noteq> 0"
  shows "curlH s k = Fin 0"
proof -
  have "rd (Hy s) k = Fin 0" "rd (Hy s) (k - 1) = Fin 0" "rd (Hx s) k = Fin 0"
    "rd (Hx s) (k - nx (params s)) = Fin 0"
    using assms(1-4) by (simp_all add: all_zero_rd)
  then show ?thesis using assms(5,6) by (simp add: curlH_def)
qed

lemma quiet_updateE:
  assumes "well_formed s" "zero_fields s" "finite_coefficients s"
    "dx (params s) \<noteq> 0" "dy (params s) \<noteq> 0"
  shows "zero_fields (updateE s)"
proof -
  have len: "length (Ez s) = nx (params s) * ny (params s)"
    "length (Hx s) = nx (params s) * ny (params s)" "length (Hy s) = nx (params s) * ny (params s)"
    "length (Ca s) = nx (params s) * ny (params s)" "length (Cb s) = nx (params s) * ny (params s)"
    using assms(1) by (simp_all add: well_formed_def Let_def)
  have "Ez (updateE s) ! k = Fin 0" if "k < length (Ez s)" for k
  proof -
    have k: "k < length (Ca s)" "k < length (Cb s)" using that len by simp_all
    obtain a b where ab: "rd (Ca s) k = Fin a" "rd (Cb s) k = Fin b"
      using all_fin_rd [OF _ k(1)] all_fin_rd [OF _ k(2)] assms(3)
      by (auto simp: finite_coefficients_def)
    have c: "curlH s k = Fin 0"
      using assms that len by (intro curlH_zero) (simp_all add: zero_fields_def)
    have z: "Ez s ! k = Fin 0" using assms(2) that by (simp add: zero_fields_def list_all_length)
    show ?thesis using that by (simp add: Ez_updateE ab c z)
  qed
  then have "list_all (\<lambda>v. v = Fin 0) (Ez (updateE s))"
    using changes_fields_D(12) [OF updateE_changes [of s]] by (simp add: list_all_length)
  moreover have "Hx (updateE s) = Hx s" "Hy (updateE s) = Hy s"
    by (simp_all add: Ez_updateE updateE_def for_grid_inv [where P = "\<lambda>s'. Hx s' = Hx s"]
        for_grid_inv [where P = "\<lambda>s'. Hy s' = Hy s"] updateE_cell_def Let_def)
  ultimately show ?thesis using assms(2) by (simp add: zero_fields_def)
qed

lemma Hxy_applyBoundaries: "Hx (applyBoundaries s) = Hx s" "Hy (applyBoundaries s) = Hy s"
  unfolding applyBoundaries_def Let_def
  by (rule fold_inv [where P = "\<lambda>s'. Hx s' = Hx s"], rule fold_inv [where P = "\<lambda>s'. Hx s' = Hx s"];
      simp)
     (rule fold_inv [where P = "\<lambda>s'. Hy s' = Hy s"], rule fold_inv [where P = "\<lambda>s'. Hy s' = Hy s"];
      simp)

lemma quiet_applyBoundaries:
  assumes "zero_fields s"
  shows "zero_fields (applyBoundaries s)"
proof -
  have "Ez (applyBoundaries s) ! k = Fin 0" if "k < length (Ez s)" for k
    using assms that by (simp add: Ez_applyBoundaries zero_fields_def list_all_length)
  then have "list_all (\<lambda>v. v = Fin 0) (Ez (applyBoundaries s))"
    using changes_fields_D(12) [OF applyBoundaries_changes [of s]] by (simp add: list_all_length)
  then show ?thesis using assms by (simp add: zero_fields_def Hxy_applyBoundaries)
qed

lemma finite_coefficients_cong:
  "changes_fields s s' \<Longrightarrow> finite_coefficients s' = finite_coefficients s"
  by (simp add: finite_coefficients_def changes_fields_def)

lemma well_formed_changes_fields:
  "changes_fields s s' \<Longrightarrow> well_formed s' = well_formed s"
  by (simp add: well_formed_def changes_fields_def)

lemma quiet_step:
  assumes "well_formed s" "sources s = []" "zero_fields s" "finite_coefficients s"
    "dx (params s) \<noteq> 0" "dy (params s) \<noteq> 0"
  shows "zero_fields (step s)"
proof -
  let ?s1 = "updateH s"
  have c1: "changes_fields s ?s1" by (rule updateH_changes)
  have s2: "applySources ?s1 = ?s1"
    using changes_fields_D(9) [OF c1] assms(2) by (simp add: applySources_def)
  have z1: "zero_fields ?s1" using assms by (intro quiet_updateH)
  have "zero_fields (updateE ?s1)"
    using z1 assms changes_fields_D(1) [OF c1]
    by (intro quiet_updateE) (simp_all add: finite_coefficients_cong [OF c1]
        well_formed_changes_fields [OF c1])
  then have "zero_fields (applyBoundaries (updateE ?s1))" by (rule quiet_applyBoundaries)
  then show ?thesis by (simp add: step_def Let_def s2 zero_fields_def)
qed

lemma params_step [simp]: "params (step s) = params s"
  using step_changes [of s] by (simp add: changes_fields_def)

lemma sources_step [simp]: "sources (step s) = sources s"
  using step_changes [of s] by (simp add: changes_fields_def)

lemma finite_coefficients_step [simp]: "finite_coefficients (step s) = finite_coefficients s"
  using step_changes [of s] by (simp add: changes_fields_def finite_coefficients_def)

text \<open>
  Claim C3, amended: a solver with no sources, all-zero fields, finite update coefficients and
  non-zero spatial steps keeps all-zero fields through any number of steps.
\<close>

theorem vacuum_quiescence:
  assumes "well_formed s" and "sources s = []" and "zero_fields s"
    and "finite_coefficients s" and "dx (params s) \<noteq> 0" and "dy (params s) \<noteq> 0"
  shows "zero_fields (run n s)"
  using assms
proof (induction n arbitrary: s)
  case 0
  then show ?case by simp
next
  case (Suc n)
  have "zero_fields (run n (step s))"
    using Suc.prems by (intro Suc.IH) (simp_all add: well_formed_step quiet_step)
  then show ?case by simp
qed

text \<open>
  A fresh solver has finite coefficients when the spatial steps are not tiny and the time step
  is not huge, so that no stored value leaves the 32-bit range.
\<close>

lemma axis_profile_le:
  assumes "0 < T" "0 \<le> c" "4 * T \<le> n"
  shows "axis_profile T n c i \<le> c"
proof -
  have a: "c * r ^ 3 \<le> c" if "0 \<le> r" "r \<le> 1" for r :: real
  proof -
    have "r ^ 3 \<le> 1" using that by (simp add: power_le_one)
    then have "c * r ^ 3 \<le> c * 1" using assms(2) by (intro mult_left_mono)
    then show ?thesis by simp
  qed
  have l: "0 \<le> (real T - real i) / real T \<and> (real T - real i) / real T \<le> 1" if "i < T"
    using that assms(1) by simp
  have r: "0 \<le> min ((real i - (real n - real T - 1)) / real T) 1" if "int n - int T \<le> int i"
  proof -
    have "real n - real T \<le> real i" using that by linarith
    then show ?thesis using assms(1) by simp
  qed
  show ?thesis
    using a l r assms(2) by (auto simp: axis_profile_def)
qed

lemma sigma_construct_bounded:
  assumes "1 / 10 ^ 30 \<le> dx p" "1 / 10 ^ 30 \<le> dy p" "k < nx p * ny p"
  shows "\<exists>sg \<ge> 0. sigma (construct p) ! k = Fin sg"
proof (cases "0 < pml_thickness p")
  case False
  then show ?thesis using assms(3) by (simp add: sigma_construct pml_merge_def)
next
  case True
  let ?T = "pml_thickness p"
  have pos: "0 < dx p" "0 < dy p"
    using assms(1,2) by (auto intro: less_le_trans [rotated])
  obtain cx cy where c: "0 < cx" "0 < cy"
    and bx: "cx \<le> 2 * 10 ^ 6 / (real ?T * dx p)" and by': "cy \<le> 2 * 10 ^ 6 / (real ?T * dy p)"
    and sig: "\<And>i' j'. i' < nx p \<Longrightarrow> j' < ny p \<Longrightarrow>
           sigma (construct p) ! (j' * nx p + i') =
             Math_fround (Fin (axis_profile ?T (nx p) cx i' + axis_profile ?T (ny p) cy j'))"
    using sigma_construct_profile [OF True pos] by blast
  have T2: "4 * ?T \<le> nx p" "4 * ?T \<le> ny p" by (simp_all add: pml_thickness_def)
  have g: "k div nx p < ny p" "k mod nx p < nx p"
    using in_grid_iff [of k "nx p" "ny p"] assms(3) by simp_all
  let ?v = "axis_profile ?T (nx p) cx (k mod nx p) + axis_profile ?T (ny p) cy (k div nx p)"
  have s: "sigma (construct p) ! k = Math_fround (Fin ?v)"
    using sig [OF g(2,1)] by simp
  have v0: "0 \<le> ?v"
    using axis_profile_nonneg [OF True _ T2(1), of cx] axis_profile_nonneg [OF True _ T2(2), of cy] c
    by (simp add: add_nonneg_nonneg)
  have bound: "2 * 10 ^ 6 / (real ?T * d) \<le> 2 * 10 ^ 36" if "1 / 10 ^ 30 \<le> d" for d :: real
  proof -
    have "1 / 10 ^ 30 * 1 \<le> d * real ?T"
      using that True by (intro mult_mono) simp_all
    then have "1 / 10 ^ 30 \<le> real ?T * d" by (simp add: mult.commute)
    then have "2 * 10 ^ 6 / (real ?T * d) \<le> 2 * 10 ^ 6 / (1 / 10 ^ 30)"
      by (intro divide_left_mono) simp_all
    then show ?thesis by simp
  qed
  have "?v \<le> cx + cy"
    using axis_profile_le [OF True _ T2(1), of cx] axis_profile_le [OF True _ T2(2), of cy] c
    by (simp add: add_mono)
  also have "\<dots> \<le> 2 * 10 ^ 36 + 2 * 10 ^ 36"
    using bx by' bound [OF assms(1)] bound [OF assms(2)] by (intro add_mono) linarith+
  finally have "?v < 2 ^ 128 - 2 ^ 103" by simp
  then have "Math_fround (Fin ?v) = Fin ?v"
    using v0 by (intro Math_fround_in_range) simp_all
  then show ?thesis using s v0 by auto
qed

lemma construct_arrays:
  "Ez (construct p) = replicate (nx p * ny p) (Fin 0)"
  "Hx (construct p) = replicate (nx p * ny p) (Fin 0)"
  "Hy (construct p) = replicate (nx p * ny p) (Fin 0)"
  "epsilon (construct p) = replicate (nx p * ny p) (Fin 1)"
  "mu (construct p) = replicate (nx p * ny p) (Fin 1)"
  "sources (construct p) = []" "obstacles (construct p) = []" "time (construct p) = 0"
proof -
  let ?s0 = "\<lparr>params = p,
            Ez = replicate (nx p * ny p) (Fin 0), Hx = replicate (nx p * ny p) (Fin 0),
            Hy = replicate (nx p * ny p) (Fin 0),
            epsilon = replicate (nx p * ny p) (Fin 1), mu = replicate (nx p * ny p) (Fin 1),
            sigma = replicate (nx p * ny p) (Fin 0),
            Ca = replicate (nx p * ny p) (Fin 0), Cb = replicate (nx p * ny p) (Fin 0),
            Da = replicate (nx p * ny p) (Fin 0), Db = replicate (nx p * ny p) (Fin 0),
            sources = [], obstacles = [], time = 0\<rparr>"
  have a: "changes_coefficients (setupPML ?s0) (construct p)"
    unfolding construct_unfold by (rule updateCoefficients_changes)
  have b: "changes_sigma ?s0 (setupPML ?s0)" by (rule setupPML_changes)
  show "Ez (construct p) = replicate (nx p * ny p) (Fin 0)"
    "Hx (construct p) = replicate (nx p * ny p) (Fin 0)"
    "Hy (construct p) = replicate (nx p * ny p) (Fin 0)"
    "epsilon (construct p) = replicate (nx p * ny p) (Fin 1)"
    "mu (construct p) = replicate (nx p * ny p) (Fin 1)"
    "sources (construct p) = []" "obstacles (construct p) = []" "time (construct p) = 0"
    using a b by (simp_all add: changes_coefficients_def changes_sigma_def)
qed

lemma zero_fields_construct: "zero_fields (construct p)"
  by (simp add: zero_fields_def construct_arrays list_all_length)

lemma coefficients_compiled_construct:
  "k < nx p * ny p \<Longrightarrow> compiled_at (construct p) k"
  unfolding construct_unfold
  by (intro compiled_updateCoefficients well_formed_setupPML) (simp_all add: well_formed_def)

lemma is_fin_fround:
  "- (2 ^ 128 - 2 ^ 103) < a \<Longrightarrow> a < 2 ^ 128 - 2 ^ 103 \<Longrightarrow> is_fin (Math_fround (Fin a))"
  by (simp add: Math_fround_in_range)

lemma finite_coefficients_construct:
  assumes "1 / 10 ^ 30 \<le> dx p" "1 / 10 ^ 30 \<le> dy p" "0 \<le> dt p" "dt p \<le> 10 ^ 20"
  shows "finite_coefficients (construct p)"
proof -
  define e0 :: real where "e0 = 8854187817 / 10 ^ 21"
  define m0 :: real where "m0 = 4 * pi / 10 ^ 7"
  have e0: "eps0 = Fin e0" "0 < e0" "1 / 10 ^ 12 \<le> e0" by (simp_all add: e0_def eps0_Fin)
  have m0: "mu0 = Fin m0" "0 < m0" by (simp_all add: m0_def mu0_Fin)
  have m0': "1 / 10 ^ 7 \<le> m0"
    using pi_ge_two unfolding m0_def by (intro divide_right_mono) simp_all
  have wf: "well_formed (construct p)" by (rule well_formed_construct)
  then have len: "length (Ca (construct p)) = nx p * ny p" "length (Cb (construct p)) = nx p * ny p"
    "length (Da (construct p)) = nx p * ny p" "length (Db (construct p)) = nx p * ny p"
    by (simp_all add: well_formed_def Let_def)
  have "is_fin (Ca (construct p) ! k) \<and> is_fin (Cb (construct p) ! k) \<and>
        is_fin (Da (construct p) ! k) \<and> is_fin (Db (construct p) ! k)" if k: "k < nx p * ny p" for k
  proof -
    obtain sg where sg: "0 \<le> sg" "sigma (construct p) ! k = Fin sg"
      using sigma_construct_bounded [OF assms(1,2) k] by blast
    define x where "x = sg * dt p / (2 * e0)"
    have x: "0 \<le> x" using sg(1) assms(3) e0(2) by (simp add: x_def)
    have c: "compiled_at (construct p) k"
      using coefficients_compiled_construct k by simp
    have ne: "e0 \<noteq> 0" "1 + sg * dt p / (2 * e0) \<noteq> 0"
      using e0(2) x by (simp_all add: x_def)
    have Ca: "Ca (construct p) ! k = Math_fround (Fin ((1 - x) / (1 + x)))"
      using c k ne
      by (simp add: compiled_at_def Let_def construct_arrays sg(2) e0(1) x_def)
    have Cb: "Cb (construct p) ! k = Math_fround (Fin (dt p / e0 / (1 + x)))"
      using c k ne
      by (simp add: compiled_at_def Let_def construct_arrays sg(2) e0(1) x_def)
    have Da: "Da (construct p) ! k = Fin 1"
      using c by (simp add: compiled_at_def Let_def)
    have "m0 \<noteq> 0" using m0(2) by simp
    then have Db: "Db (construct p) ! k = Math_fround (Fin (dt p / m0))"
      using c k
      by (simp add: compiled_at_def Let_def construct_arrays m0(1))
    have 1: "- 1 \<le> (1 - x) / (1 + x)" "(1 - x) / (1 + x) \<le> 1"
      using x by (simp_all add: pos_divide_le_eq pos_le_divide_eq)
    have "dt p / e0 \<le> 10 ^ 20 / (1 / 10 ^ 12)"
      using assms(3,4) e0(2,3) by (intro frac_le) simp_all
    then have de: "0 \<le> dt p / e0" "dt p / e0 \<le> 10 ^ 32" using assms(3) e0(2) by simp_all
    have "dt p / e0 / (1 + x) \<le> dt p / e0 / 1"
      using de(1) x by (intro divide_left_mono) simp_all
    moreover have "0 \<le> dt p / e0 / (1 + x)"
      using assms(3) e0(2) x by (intro divide_nonneg_nonneg) simp_all
    ultimately have 2: "0 \<le> dt p / e0 / (1 + x)" "dt p / e0 / (1 + x) \<le> 10 ^ 32"
      using de(2) by simp_all
    have "dt p / m0 \<le> 10 ^ 20 / (1 / 10 ^ 7)"
      using assms(3,4) m0(2) m0' by (intro frac_le) simp_all
    then have 3: "0 \<le> dt p / m0" "dt p / m0 \<le> 10 ^ 27" using assms(3) m0(2) by simp_all
    have "is_fin (Ca (construct p) ! k)"
      unfolding Ca using 1 by (intro is_fin_fround) simp_all
    moreover have "is_fin (Cb (construct p) ! k)"
      unfolding Cb using 2 by (intro is_fin_fround) simp_all
    moreover have "is_fin (Db (construct p) ! k)"
      unfolding Db using 3 by (intro is_fin_fround) simp_all
    ultimately show ?thesis using Da by simp
  qed
  then show ?thesis using len by (simp add: finite_coefficients_def list_all_length)
qed

lemma signed_inf_simps [simp]:
  "signed_inf 0 = NaN" "signed_inf 1 = PInf" "signed_inf (- 1) = NInf"
  by (simp_all add: signed_inf_def)

theorem vacuum_quiescence_witness:
  "well_formed (construct grid4) \<and> sources (construct grid4) = [] \<and>
   zero_fields (construct grid4) \<and> finite_coefficients (construct grid4) \<and>
   zero_fields (run 3 (construct grid4))"
  using vacuum_quiescence [of "construct grid4" 3] well_formed_construct [of grid4]
    zero_fields_construct [of grid4] finite_coefficients_construct [of grid4]
  by (simp add: construct_arrays grid4_def)

subsection \<open>One step at an interior cell\<close>

lemma Ez_step_interior:
  assumes "well_formed s" "0 < i" "Suc i < nx (params s)" "0 < j" "Suc j < ny (params s)"
  shows "Ez (step s) ! (j * nx (params s) + i) =
           Math_fround
             (rd (Ca s) (j * nx (params s) + i) * Ez (applySources (updateH s)) ! (j * nx (params s) + i)
              + rd (Cb s) (j * nx (params s) + i)
                * curlH (applySources (updateH s)) (j * nx (params s) + i))"
proof -
  let ?n = "nx (params s)" and ?k = "j * nx (params s) + i"
  let ?s2 = "applySources (updateH s)"
  have c2: "changes_fields s ?s2"
    by (rule changes_fields_trans [OF updateH_changes applySources_changes])
  have c3: "changes_fields s (updateE ?s2)"
    by (rule changes_fields_trans [OF c2 updateE_changes])
  have k: "?k < ?n * ny (params s)" using assms(3,5) by (intro cell_less) simp_all
  have len: "length (Ez s) = ?n * ny (params s)"
    using assms(1) by (simp add: well_formed_def Let_def)
  have i: "i < ?n" using assms(3) by simp
  have "Ez (step s) ! ?k = Ez (updateE ?s2) ! ?k"
    unfolding Ez_step
    using Ez_applyBoundaries_interior [of i "updateE ?s2" j] assms(2-5) k len
      changes_fields_D(1,12) [OF c3] by simp
  also have "\<dots> = Math_fround (rd (Ca ?s2) ?k * Ez ?s2 ! ?k + rd (Cb ?s2) ?k * curlH ?s2 ?k)"
    using k len changes_fields_D(1,12) [OF c2] assms(2-5) cell_div_mod [OF i, of j]
    by (simp add: Ez_updateE)
  finally show ?thesis using changes_fields_D(5,6) [OF c2] by simp
qed

subsection \<open>The material arrays after \<open>addObstacle\<close>\<close>

lemma changes_materials_obstacles:
  "changes_materials (s\<lparr>obstacles := obs\<rparr>) s' \<Longrightarrow>
     params s' = params s \<and> Ez s' = Ez s \<and> Hx s' = Hx s \<and> Hy s' = Hy s \<and>
     Ca s' = Ca s \<and> Cb s' = Cb s \<and> Da s' = Da s \<and> Db s' = Db s \<and>
     sources s' = sources s \<and> obstacles s' = obs \<and> time s' = time s"
  by (simp add: changes_materials_def)

lemma recompiled_materials:
  "epsilon (updateCoefficients (setupPML s)) = epsilon s"
  "mu (updateCoefficients (setupPML s)) = mu s"
  "sigma (updateCoefficients (setupPML s)) =
     map (\<lambda>k. pml_merge (params s) k (sigma s ! k)) [0..<length (sigma s)]"
  "Ez (updateCoefficients (setupPML s)) = Ez s"
  "Hx (updateCoefficients (setupPML s)) = Hx s"
  "Hy (updateCoefficients (setupPML s)) = Hy s"
  "sources (updateCoefficients (setupPML s)) = sources s"
  "obstacles (updateCoefficients (setupPML s)) = obstacles s"
  "time (updateCoefficients (setupPML s)) = time s"
  using updateCoefficients_changes [of "setupPML s"] setupPML_changes [of s]
  by (simp_all add: changes_coefficients_def changes_sigma_def sigma_setupPML)

lemma addObstacle_materials:
  "epsilon (addObstacle ob s) =
     map (\<lambda>k. if covers (params s) ob k then Math_fround (Fin (Material.epsilon (material ob)))
               else epsilon s ! k) [0..<length (epsilon s)]"
  "mu (addObstacle ob s) =
     map (\<lambda>k. if covers (params s) ob k then Math_fround (Fin (Material.mu (material ob)))
               else mu s ! k) [0..<length (mu s)]"
  "sigma (addObstacle ob s) =
     map (\<lambda>k. pml_merge (params s) k
                 (if covers (params s) ob k then Math_fround (Fin (Material.sigma (material ob)))
                  else sigma s ! k)) [0..<length (sigma s)]"
  by (simp_all add: addObstacle_def applyObstacle_def recompiled_materials rasterize_arrays
      cong: map_cong)

lemma addObstacle_rest:
  "Ez (addObstacle ob s) = Ez s" "Hx (addObstacle ob s) = Hx s" "Hy (addObstacle ob s) = Hy s"
  "sources (addObstacle ob s) = sources s" "obstacles (addObstacle ob s) = obstacles s @ [ob]"
  "time (addObstacle ob s) = time s"
  using rasterize_changes [of "s\<lparr>obstacles := obstacles s @ [ob]\<rparr>" ob "material ob"]
  by (simp_all add: addObstacle_def applyObstacle_def recompiled_materials changes_materials_def)

text \<open>
  Claim C3 as stated fails: with an obstacle of zero permittivity the coefficients of its cells
  are NaN, and the first step writes NaN into \<open>Ez\<close> although there is no source and the fields
  were all zero.
\<close>

theorem vacuum_quiescence_counterexample:
  "sources (addObstacle void (construct grid3)) = [] \<and>
   zero_fields (addObstacle void (construct grid3)) \<and>
   Ez (run 1 (addObstacle void (construct grid3))) ! 4 = NaN \<and>
   \<not> zero_fields (run 1 (addObstacle void (construct grid3)))"
proof -
  let ?s = "addObstacle void (construct grid3)"
  have wf: "well_formed ?s" by (intro well_formed_addObstacle well_formed_construct)
  have p: "params ?s = grid3" by simp
  have n: "nx grid3 = 3" "ny grid3 = 3" by (simp_all add: grid3_def)
  have cov: "covers grid3 void 4" by (simp add: covers_def grid3_def void_def)
  have T: "pml_thickness grid3 = 0" by (simp add: pml_thickness_def grid3_def)
  have len: "length (epsilon (construct grid3)) = 9" "length (sigma (construct grid3)) = 9"
    "length (Ca ?s) = 9" "length (Ez ?s) = 9"
    using well_formed_construct [of grid3] wf by (simp_all add: well_formed_def Let_def n)
  have e: "epsilon ?s ! 4 = Fin 0" "sigma ?s ! 4 = Fin 0"
    using cov len by (simp_all add: addObstacle_materials void_def pml_merge_def T)
  have "compiled_at ?s 4"
    unfolding addObstacle_def applyObstacle_def
    by (intro compiled_updateCoefficients well_formed_setupPML well_formed_rasterize)
       (simp_all add: well_formed_construct n)
  then have Ca: "rd (Ca ?s) 4 = NaN"
    using len by (simp add: compiled_at_def Let_def e eps0_Fin rd_def signed_inf_def)
  have "Ez (step ?s) ! (1 * nx (params ?s) + 1) = NaN"
    using wf by (subst Ez_step_interior) (simp_all add: n Ca)
  then have E: "Ez (step ?s) ! 4 = NaN" by (simp add: n)
  have "length (Ez (step ?s)) = 9"
    using step_changes [of ?s] len by (simp add: changes_fields_def)
  then have "\<not> list_all (\<lambda>v. v = Fin 0) (Ez (step ?s))"
    using E by (auto simp: list_all_length intro!: exI [of _ 4])
  then show ?thesis
    using E zero_fields_construct [of grid3]
    by (simp add: zero_fields_def addObstacle_rest construct_arrays)
qed

subsection \<open>Adding and removing an obstacle\<close>

lemma find_append_fresh:
  assumes "\<forall>b \<in> set xs. \<not> P b" "P a"
  shows "find P (xs @ [a]) = Some a"
  using assms by (induction xs) simp_all

lemma removeObstacle_found:
  assumes "find (\<lambda>b. Obstacle.id' b = i) (obstacles s) = Some ob"
  shows "removeObstacle i s =
           updateCoefficients (setupPML ((rasterize ob vacuum s)
              \<lparr>obstacles := filter (\<lambda>b. Obstacle.id' b \<noteq> i) (obstacles s)\<rparr>))"
  using assms by (simp add: removeObstacle_def removeObstacleMaterial_def)

lemma removeObstacle_materials:
  assumes "find (\<lambda>b. Obstacle.id' b = i) (obstacles s) = Some ob"
  shows "epsilon (removeObstacle i s) =
           map (\<lambda>k. if covers (params s) ob k then Fin 1 else epsilon s ! k) [0..<length (epsilon s)]"
    "mu (removeObstacle i s) =
           map (\<lambda>k. if covers (params s) ob k then Fin 1 else mu s ! k) [0..<length (mu s)]"
    "sigma (removeObstacle i s) =
           map (\<lambda>k. pml_merge (params s) k (if covers (params s) ob k then Fin 0 else sigma s ! k))
             [0..<length (sigma s)]"
  by (simp_all add: removeObstacle_found [OF assms] recompiled_materials rasterize_arrays
      vacuum_def cong: map_cong)

lemma compiled_at_cong:
  assumes "compiled_at s k" "compiled_at s' k" "params s' = params s"
    "epsilon s' ! k = epsilon s ! k" "mu s' ! k = mu s ! k" "sigma s' ! k = sigma s ! k"
  shows "Ca s' ! k = Ca s ! k \<and> Cb s' ! k = Cb s ! k \<and> Da s' ! k = Da s ! k \<and> Db s' ! k = Db s ! k"
  using assms by (simp add: compiled_at_def Let_def)

lemma compiled_removeObstacle:
  assumes "well_formed s" "k < nx (params s) * ny (params s)" "compiled_at s k"
  shows "compiled_at (removeObstacle i s) k"
  using assms unfolding removeObstacle_def removeObstacleMaterial_def
  by (auto split: option.splits
      intro!: compiled_updateCoefficients well_formed_setupPML simp: well_formed_rasterize)

lemma compiled_addObstacle:
  assumes "well_formed s" "k < nx (params s) * ny (params s)"
  shows "compiled_at (addObstacle ob s) k"
  using assms unfolding addObstacle_def applyObstacle_def
  by (intro compiled_updateCoefficients well_formed_setupPML well_formed_rasterize) simp_all

text \<open>
  Claim C5, amended: let no obstacle of the solver carry the identifier of \<open>ob\<close>. Let \<open>k\<close> be a
  cell whose coefficients are compiled and whose \<open>sigma\<close> has the PML overlay merged in, and
  which, if the rectangle of \<open>ob\<close> touches it, holds pristine vacuum. Then after
  \<open>addObstacle ob\<close> followed by \<open>removeObstacle\<close> of its identifier the material entries and
  the four coefficients of \<open>k\<close> are those of the state before; a touched cell has
  \<open>epsilon = 1\<close>, \<open>mu = 1\<close> and as \<open>sigma\<close> the PML overlay merged into 0 (which is 0 outside the
  PML layer).
\<close>

theorem obstacle_add_remove:
  assumes "well_formed s"
    and "\<forall>b \<in> set (obstacles s). Obstacle.id' b \<noteq> Obstacle.id' ob"
    and "k < nx (params s) * ny (params s)"
    and "compiled_at s k"
    and "pml_merge (params s) k (sigma s ! k) = sigma s ! k"
    and "covers (params s) ob k \<longrightarrow> pristine_at s k"
  shows "same_cell s (removeObstacle (Obstacle.id' ob) (addObstacle ob s)) k \<and>
         (covers (params s) ob k \<longrightarrow>
            pristine_at (removeObstacle (Obstacle.id' ob) (addObstacle ob s)) k)"
proof -
  let ?s1 = "addObstacle ob s" and ?p = "params s"
  let ?s2 = "removeObstacle (Obstacle.id' ob) ?s1"
  have f: "find (\<lambda>b. Obstacle.id' b = Obstacle.id' ob) (obstacles ?s1) = Some ob"
    using assms(2) by (simp add: addObstacle_rest find_append_fresh)
  have wf1: "well_formed ?s1" using assms(1) by (rule well_formed_addObstacle)
  have len: "k < length (epsilon s)" "k < length (mu s)" "k < length (sigma s)"
    using assms(1,3) by (simp_all add: well_formed_def Let_def)
  have len1: "length (epsilon ?s1) = length (epsilon s)" "length (mu ?s1) = length (mu s)"
    "length (sigma ?s1) = length (sigma s)"
    by (simp_all add: addObstacle_materials)
  have e: "epsilon ?s2 ! k = (if covers ?p ob k then Fin 1 else epsilon s ! k)"
    using len by (simp add: removeObstacle_materials [OF f] len1 addObstacle_materials)
  have m: "mu ?s2 ! k = (if covers ?p ob k then Fin 1 else mu s ! k)"
    using len by (simp add: removeObstacle_materials [OF f] len1 addObstacle_materials)
  have sg: "sigma ?s2 ! k =
      (if covers ?p ob k then pml_merge ?p k (Fin 0) else sigma s ! k)"
    using len assms(5)
    by (simp add: removeObstacle_materials [OF f] len1 addObstacle_materials pml_merge_idem)
  have mat: "epsilon ?s2 ! k = epsilon s ! k" "mu ?s2 ! k = mu s ! k" "sigma ?s2 ! k = sigma s ! k"
    using e m sg assms(6) by (auto simp: pristine_at_def)
  have c2: "compiled_at ?s2 k"
    using wf1 assms(3) by (intro compiled_removeObstacle compiled_addObstacle assms(1)) simp_all
  have "same_cell s ?s2 k"
    using compiled_at_cong [OF assms(4) c2 _ mat] mat by (simp add: same_cell_def)
  moreover have "pristine_at ?s2 k" if "covers ?p ob k"
    using that e m sg by (simp add: pristine_at_def)
  ultimately show ?thesis by simp
qed

lemma pml_merged_construct_cell:
  assumes "k < nx p * ny p"
  shows "pml_merge p k (sigma (construct p) ! k) = sigma (construct p) ! k"
  using assms by (simp add: sigma_construct pml_merge_idem)

lemma pristine_construct: "k < nx p * ny p \<Longrightarrow> pristine_at (construct p) k"
  by (simp add: pristine_at_def construct_arrays sigma_construct)

theorem obstacle_add_remove_witness:
  "covers grid4 corner 0 \<and>
   same_cell (addObstacle glass (construct grid4))
     (removeObstacle ''corner'' (addObstacle corner (addObstacle glass (construct grid4)))) 0 \<and>
   pristine_at
     (removeObstacle ''corner'' (addObstacle corner (addObstacle glass (construct grid4)))) 0"
proof -
  let ?s = "addObstacle glass (construct grid4)"
  have n: "nx grid4 = 4" "ny grid4 = 4" by (simp_all add: grid4_def)
  have c: "covers grid4 corner 0" "\<not> covers grid4 glass 0"
    by (simp_all add: covers_def corner_def glass_def n)
  have wf: "well_formed ?s" by (intro well_formed_addObstacle well_formed_construct)
  have len: "length (sigma (construct grid4)) = 16" "length (epsilon (construct grid4)) = 16"
    "length (mu (construct grid4)) = 16"
    using well_formed_construct [of grid4] by (simp_all add: well_formed_def Let_def n)
  have ids: "\<forall>b \<in> set (obstacles ?s). Obstacle.id' b \<noteq> Obstacle.id' corner"
    by (simp add: addObstacle_rest construct_arrays glass_def corner_def)
  have comp: "compiled_at ?s 0" by (intro compiled_addObstacle well_formed_construct) (simp add: n)
  have sg: "sigma ?s ! 0 = pml_merge grid4 0 (Fin 0)"
    using c len by (simp add: addObstacle_materials sigma_construct n pml_merge_idem)
  then have merged: "pml_merge (params ?s) 0 (sigma ?s ! 0) = sigma ?s ! 0"
    by (simp add: pml_merge_idem)
  have pr: "pristine_at ?s 0"
    using c len sg by (simp add: pristine_at_def addObstacle_materials construct_arrays n)
  show ?thesis
    using obstacle_add_remove [of ?s corner 0] c(1) wf ids comp merged pr
    by (simp add: n corner_def)
qed

text \<open>
  Claim C5 as stated fails twice. A touched cell inside the PML layer does not end with
  \<open>sigma = 0\<close>: \<open>removeObstacle\<close> re-grades the layer after resetting the cell. And where the
  new obstacle lies on an earlier one, removing it erases the earlier material too, so the
  coefficients are not those of the state before \<open>addObstacle\<close>.
\<close>

theorem obstacle_add_remove_counterexample:
  "covers grid4 corner 0 \<and>
   sigma (removeObstacle ''corner'' (addObstacle corner (construct grid4))) ! 0 \<noteq> Fin 0 \<and>
   Cb (removeObstacle ''film'' (addObstacle film (addObstacle glass (construct grid3))))
     \<noteq> Cb (addObstacle glass (construct grid3))"
proof (intro conjI)
  have n: "nx grid4 = 4" "ny grid4 = 4" "dx grid4 = 1" "dy grid4 = 1" by (simp_all add: grid4_def)
  show c: "covers grid4 corner 0" by (simp add: covers_def corner_def n)
  let ?s1 = "addObstacle corner (construct grid4)"
  have f: "find (\<lambda>b. Obstacle.id' b = ''corner'') (obstacles ?s1) = Some corner"
    by (simp add: addObstacle_rest construct_arrays corner_def)
  have len: "length (sigma (construct grid4)) = 16"
    using well_formed_construct [of grid4] by (simp add: well_formed_def Let_def n)
  have T: "pml_thickness grid4 = 1" by (simp add: pml_thickness_def pmlThickness_def n)
  obtain cx cy where cc: "0 < cx" "0 < cy"
    and sig: "\<And>i' j'. i' < nx grid4 \<Longrightarrow> j' < ny grid4 \<Longrightarrow>
           sigma (construct grid4) ! (j' * nx grid4 + i') =
             Math_fround (Fin (axis_profile (pml_thickness grid4) (nx grid4) cx i'
                  + axis_profile (pml_thickness grid4) (ny grid4) cy j'))"
    using sigma_construct_profile [of grid4] by (auto simp: T n)
  have "sigma (construct grid4) ! 0 = Math_fround (Fin (cx + cy))"
    using sig [of 0 0] by (simp add: n T axis_profile_def)
  then have "sigma (construct grid4) ! 0 \<noteq> Fin 0"
    using Math_fround_pos [of "cx + cy"] cc by auto
  moreover have "sigma (removeObstacle ''corner'' ?s1) ! 0 = pml_merge grid4 0 (Fin 0)"
    using c len by (simp add: removeObstacle_materials [OF f] addObstacle_materials)
  ultimately show "sigma (removeObstacle ''corner'' ?s1) ! 0 \<noteq> Fin 0"
    by (simp add: sigma_construct n)
next
  let ?s = "addObstacle glass (construct grid3)"
  let ?s1 = "addObstacle film ?s"
  let ?s2 = "removeObstacle ''film'' ?s1"
  have n: "nx grid3 = 3" "ny grid3 = 3" "dt grid3 = 1 / 10 ^ 9" by (simp_all add: grid3_def)
  have T: "pml_thickness grid3 = 0" by (simp add: pml_thickness_def n)
  have wf: "well_formed ?s" "well_formed ?s1"
    by (intro well_formed_addObstacle well_formed_construct)+
  have f: "find (\<lambda>b. Obstacle.id' b = ''film'') (obstacles ?s1) = Some film"
    by (simp add: addObstacle_rest construct_arrays glass_def film_def)
  have cov: "covers grid3 film 4" "covers grid3 glass 4"
    by (simp_all add: covers_def film_def glass_def n)
  have len: "length (epsilon (construct grid3)) = 9" "length (sigma (construct grid3)) = 9"
    using well_formed_construct [of grid3] by (simp_all add: well_formed_def Let_def n)
  have before: "epsilon ?s ! 4 = Fin 4" "sigma ?s ! 4 = Fin 0"
    using cov len
    by (simp_all add: addObstacle_materials glass_def pml_merge_def T Math_fround_in_range)
  have after: "epsilon ?s2 ! 4 = Fin 1" "sigma ?s2 ! 4 = Fin 0"
    using cov len
    by (simp_all add: removeObstacle_materials [OF f] addObstacle_materials pml_merge_def T)
  have "compiled_at ?s 4" by (intro compiled_addObstacle well_formed_construct) (simp add: n)
  then have b: "Cb ?s ! 4 = Fin (1 / 10 ^ 9 / (4 * (8854187817 / 10 ^ 21)))"
    by (simp add: compiled_at_def Let_def before eps0_Fin n Math_fround_in_range)
  have "compiled_at ?s2 4"
    by (intro compiled_removeObstacle compiled_addObstacle wf well_formed_construct)
       (simp_all add: n)
  then have a: "Cb ?s2 ! 4 = Fin (1 / 10 ^ 9 / (8854187817 / 10 ^ 21))"
    by (simp add: compiled_at_def Let_def after eps0_Fin n Math_fround_in_range)
  have "Cb ?s2 ! 4 \<noteq> Cb ?s ! 4" unfolding a b by simp
  then show "Cb ?s2 \<noteq> Cb ?s" by auto
qed

subsection \<open>The range of the coefficient arrays\<close>

lemma Cb_construct_grid3_far: "Cb (construct grid3_far) ! 4 = PInf"
proof -
  have n: "nx grid3_far = 3" "ny grid3_far = 3" "dt grid3_far = 10 ^ 30"
    by (simp_all add: grid3_far_def)
  have T: "pml_thickness grid3_far = 0" by (simp add: pml_thickness_def n)
  have "compiled_at (construct grid3_far) 4"
    by (rule coefficients_compiled_construct) (simp add: n)
  moreover have "sigma (construct grid3_far) ! 4 = Fin 0"
    by (simp add: sigma_construct n pml_merge_def T)
  ultimately show ?thesis
    by (simp add: compiled_at_def Let_def construct_arrays n eps0_Fin Math_fround.simps(1)
        float32_limit_def)
qed

text \<open>
  Claim C2 as stated fails: on \<open>grid3_far\<close>, whose time step satisfies the Courant bound, the
  formula gives the finite number \<open>dt/\<epsilon>\<^sub>0 = 10\<^sup>5\<^sup>1 / 8854187817\<close> for \<open>Cb\<close> at the centre cell, which
  is beyond the range of the 32-bit array, and the array holds \<open>\<infinity>\<close>.
\<close>

theorem coefficients_compiled_counterexample:
  "Cb (construct grid3_far) ! 4 = PInf \<and>
   (Fin (dt grid3_far) / (epsilon (construct grid3_far) ! 4 * eps0))
     / (Fin 1 + sigma (construct grid3_far) ! 4 * Fin (dt grid3_far)
                  / (Fin 2 * (epsilon (construct grid3_far) ! 4 * eps0)))
     = Fin (10 ^ 51 / 8854187817) \<and>
   dt grid3_far < min (dx grid3_far) (dy grid3_far) / (299792458 * sqrt 2)"
proof -
  have n: "nx grid3_far = 3" "ny grid3_far = 3" "dt grid3_far = 10 ^ 30"
    "dx grid3_far = 10 ^ 40" "dy grid3_far = 10 ^ 40"
    by (simp_all add: grid3_far_def)
  have T: "pml_thickness grid3_far = 0" by (simp add: pml_thickness_def n)
  have s: "sigma (construct grid3_far) ! 4 = Fin 0"
    by (simp add: sigma_construct n pml_merge_def T)
  have e: "epsilon (construct grid3_far) ! 4 = Fin 1"
    by (simp add: construct_arrays n)
  have "sqrt 2 < 2" by (rule real_less_lsqrt) simp_all
  then have "299792458 * sqrt 2 < 10 ^ 9" by simp
  then have "(10::real) ^ 30 * (299792458 * sqrt 2) < 10 ^ 30 * 10 ^ 9"
    by (intro mult_strict_left_mono) simp_all
  then have c: "(10::real) ^ 30 < 10 ^ 40 / (299792458 * sqrt 2)"
    by (simp add: pos_less_divide_eq)
  show ?thesis
    using Cb_construct_grid3_far c by (simp add: s e n eps0_Fin)
qed

subsection \<open>A single dipole\<close>

lemma add_at_nth:
  "k < length xs \<Longrightarrow> add_at xs (int k) v = xs[k := Math_fround (xs ! k + v)]"
  by (simp add: add_at_def geti_def wri_def)

lemma applySource_dipole:
  assumes "type src = Dipole" "\<lfloor>Source.x src\<rfloor> = int i" "\<lfloor>Source.y src\<rfloor> = int j"
    "i < nx (params s)" "j < ny (params s)" "j * nx (params s) + i < length (Ez s)"
  shows "applySource src s =
           s\<lparr>Ez := (Ez s)[j * nx (params s) + i :=
                  Math_fround (Ez s ! (j * nx (params s) + i)
                  + Fin (amplitude src) * carrier src (N (time s) * Fin (dt (params s))))]\<rparr>"
proof -
  have "int j * int (nx (params s)) + int i = int (j * nx (params s) + i)" by simp
  then show ?thesis
    using assms by (simp add: applySource_def Let_def add_at_nth del: of_nat_add of_nat_mult)
qed

lemma carrier_Fin:
  "carrier src (Fin t) = Fin (sin (2 * pi * frequency src * t + phase src))"
  by (simp add: carrier_def Math_PI_def)

lemma plus_Fin_zero: "v + Fin 0 = v"
  by (cases v) simp_all

lemma list_all_zero_update:
  "list_all (\<lambda>v. v = Fin 0) xs \<Longrightarrow> k < length xs \<Longrightarrow>
     xs[k := Math_fround (xs ! k + Fin 0)] = xs"
  by (simp add: list_all_length list_update_same_conv)

text \<open>
  The states of the first two steps: the solver holds the one dipole, its fields are zero and
  its coefficients finite.
\<close>

lemma dipole_step_zero:
  assumes "well_formed s" "zero_fields s" "finite_coefficients s"
    "dx (params s) \<noteq> 0" "dy (params s) \<noteq> 0"
    and "sources s = [src]" "type src = Dipole" "phase src = 0" "time s = 0"
    and "\<lfloor>Source.x src\<rfloor> = int i" "\<lfloor>Source.y src\<rfloor> = int j"
    and "i < nx (params s)" "j < ny (params s)"
  shows "zero_fields (step s)"
proof -
  let ?s1 = "updateH s"
  let ?k = "j * nx (params s) + i"
  have c1: "changes_fields s ?s1" by (rule updateH_changes)
  note d1 = changes_fields_D [OF c1]
  have z1: "zero_fields ?s1" using assms(1-5) by (intro quiet_updateH)
  have k: "?k < length (Ez ?s1)"
    using cell_less [OF assms(12,13)] assms(1) d1(12) by (simp add: well_formed_def Let_def)
  have "applySource src ?s1 = ?s1"
    using z1 k assms(7-13) d1(1,11)
    by (subst applySource_dipole [where i = i and j = j])
       (simp_all add: carrier_Fin zero_fields_def list_all_zero_update)
  then have s2: "applySources ?s1 = ?s1" using d1(9) assms(6) by (simp add: applySources_def)
  have "zero_fields (updateE ?s1)"
    using z1 assms(1-5) d1(1)
    by (intro quiet_updateE) (simp_all add: finite_coefficients_cong [OF c1]
        well_formed_changes_fields [OF c1])
  then have "zero_fields (applyBoundaries (updateE ?s1))" by (rule quiet_applyBoundaries)
  then show ?thesis by (simp add: step_def Let_def s2 zero_fields_def)
qed

lemma dipole_step_one:
  assumes "well_formed s" "zero_fields s" "finite_coefficients s"
    "dx (params s) \<noteq> 0" "dy (params s) \<noteq> 0"
    and "sources s = [src]" "type src = Dipole" "phase src = 0" "time s = 1"
    and "\<lfloor>Source.x src\<rfloor> = int i" "\<lfloor>Source.y src\<rfloor> = int j"
    and "0 < i" "Suc i < nx (params s)" "0 < j" "Suc j < ny (params s)"
  shows "Ez (step s) ! (j * nx (params s) + i) =
           Math_fround (Ca s ! (j * nx (params s) + i)
             * Math_fround (Fin (amplitude src * sin (2 * pi * frequency src * dt (params s)))))"
proof -
  let ?s1 = "updateH s"
  let ?k = "j * nx (params s) + i"
  let ?v = "Math_fround (Fin (amplitude src * sin (2 * pi * frequency src * dt (params s))))"
  have ij: "i < nx (params s)" "j < ny (params s)" using assms(13,15) by simp_all
  have c1: "changes_fields s ?s1" by (rule updateH_changes)
  note d1 = changes_fields_D [OF c1]
  have z1: "zero_fields ?s1" using assms(1-5) by (intro quiet_updateH)
  have kk: "?k < nx (params s) * ny (params s)" by (rule cell_less [OF ij])
  have len: "length (Ez s) = nx (params s) * ny (params s)"
    "length (Hx s) = nx (params s) * ny (params s)" "length (Hy s) = nx (params s) * ny (params s)"
    "length (Ca s) = nx (params s) * ny (params s)" "length (Cb s) = nx (params s) * ny (params s)"
    using assms(1) by (simp_all add: well_formed_def Let_def)
  have k: "?k < length (Ez ?s1)" using kk len d1(12) by simp
  have "applySource src ?s1 = ?s1\<lparr>Ez := (Ez ?s1)[?k := Math_fround (Ez ?s1 ! ?k
          + Fin (amplitude src) * carrier src (N 1 * Fin (dt (params s))))]\<rparr>"
    using k assms(7-11) ij d1(1,11)
    by (subst applySource_dipole [where i = i and j = j]) simp_all
  moreover have "Ez ?s1 ! ?k = Fin 0" using z1 k by (simp add: zero_fields_def list_all_length)
  ultimately have a: "applySource src ?s1 = ?s1\<lparr>Ez := (Ez ?s1)[?k := ?v]\<rparr>"
    using assms(8) by (simp add: carrier_Fin)
  then have s2: "applySources ?s1 = ?s1\<lparr>Ez := (Ez ?s1)[?k := ?v]\<rparr>"
    using d1(9) assms(6) by (simp add: applySources_def)
  have curl: "curlH (applySources ?s1) ?k = Fin 0"
    unfolding s2 using z1 kk len d1 assms(4,5)
    by (intro curlH_zero) (simp_all add: zero_fields_def)
  obtain b where b: "rd (Cb s) ?k = Fin b"
    using all_fin_rd [of "Cb s" ?k] assms(3) kk len
    by (auto simp: finite_coefficients_def)
  have "Ez (step s) ! ?k = Math_fround (rd (Ca s) ?k * Ez (applySources ?s1) ! ?k
           + rd (Cb s) ?k * curlH (applySources ?s1) ?k)"
    using assms(1,12-15) by (rule Ez_step_interior)
  also have "\<dots> = Math_fround (rd (Ca s) ?k * ?v)"
    unfolding curl using k by (simp add: s2 b plus_Fin_zero)
  finally show ?thesis using kk len by (simp add: rd_def)
qed

lemma addSource_fields:
  "Ez (addSource src s) = Ez s" "Hx (addSource src s) = Hx s" "Hy (addSource src s) = Hy s"
  "Ca (addSource src s) = Ca s" "Cb (addSource src s) = Cb s" "Da (addSource src s) = Da s"
  "Db (addSource src s) = Db s" "time (addSource src s) = time s"
  "sources (addSource src s) = sources s @ [src]"
  by (simp_all add: addSource_def)

lemma dipole_steps:
  assumes "finite_coefficients (construct p)" "dx p \<noteq> 0" "dy p \<noteq> 0"
    and "type src = Dipole" "phase src = 0"
    and "\<lfloor>Source.x src\<rfloor> = int i" "\<lfloor>Source.y src\<rfloor> = int j" "i < nx p" "j < ny p"
  shows "zero_fields (step (addSource src (construct p)))"
    and "0 < i \<Longrightarrow> Suc i < nx p \<Longrightarrow> 0 < j \<Longrightarrow> Suc j < ny p \<Longrightarrow>
         Ez (step (step (addSource src (construct p)))) ! (j * nx p + i) =
           Math_fround (Ca (construct p) ! (j * nx p + i)
             * Math_fround (Fin (amplitude src * sin (2 * pi * frequency src * dt p))))"
proof -
  let ?s0 = "addSource src (construct p)"
  have wf: "well_formed ?s0" by (intro well_formed_addSource well_formed_construct)
  have z: "zero_fields ?s0"
    using zero_fields_construct [of p] by (simp add: zero_fields_def addSource_fields)
  have fc: "finite_coefficients ?s0"
    using assms(1) by (simp add: finite_coefficients_def addSource_fields)
  have src: "sources ?s0 = [src]" "time ?s0 = 0" "params ?s0 = p"
    by (simp_all add: addSource_fields construct_arrays)
  show z1: "zero_fields (step ?s0)"
    using wf z fc src assms by (intro dipole_step_zero [where src = src and i = i and j = j]) simp_all
  show "Ez (step (step ?s0)) ! (j * nx p + i) =
           Math_fround (Ca (construct p) ! (j * nx p + i)
             * Math_fround (Fin (amplitude src * sin (2 * pi * frequency src * dt p))))"
    if "0 < i" "Suc i < nx p" "0 < j" "Suc j < ny p"
  proof -
    have "Ez (step (step ?s0)) ! (j * nx (params (step ?s0)) + i) =
           Math_fround (Ca (step ?s0) ! (j * nx (params (step ?s0)) + i)
             * Math_fround (Fin (amplitude src
                 * sin (2 * pi * frequency src * dt (params (step ?s0))))))"
      using wf z1 fc src assms that
      by (intro dipole_step_one) (simp_all add: well_formed_step time_step)
    moreover have "Ca (step ?s0) = Ca (construct p)"
      using step_changes [of ?s0] by (simp add: changes_fields_def addSource_fields)
    ultimately show ?thesis by (simp add: src)
  qed
qed

lemma dipole1_quarter:
  "amplitude dipole1 * sin (2 * pi * frequency dipole1 * dt grid3) = 1"
proof -
  have "2 * pi * 250000000 * (1 / 10 ^ 9) = pi / 2" by simp
  then show ?thesis by (simp add: dipole1_def grid3_def)
qed

lemma finite_coefficients_grid3: "finite_coefficients (construct grid3)"
  by (rule finite_coefficients_construct) (simp_all add: grid3_def)

lemma Ca_construct_grid3: "Ca (construct grid3) ! 4 = Fin 1"
proof -
  have n: "nx grid3 = 3" "ny grid3 = 3" by (simp_all add: grid3_def)
  have T: "pml_thickness grid3 = 0" by (simp add: pml_thickness_def n)
  have "compiled_at (construct grid3) 4" by (rule coefficients_compiled_construct) (simp add: n)
  moreover have "sigma (construct grid3) ! 4 = Fin 0"
    by (simp add: sigma_construct n pml_merge_def T)
  ultimately show ?thesis
    by (simp add: compiled_at_def Let_def construct_arrays n eps0_Fin)
qed




text \<open>
  The hypothesis of finite coefficients is needed: on \<open>grid3_far\<close> the arrays \<open>Da\<close> and \<open>Db\<close> are
  finite, but \<open>Cb\<close> holds \<open>\<infinity>\<close>, and the first step stores \<open>Ca \<sqdot> 0 + \<infinity> \<sqdot> 0\<close>, which is not a number,
  at the source cell.
\<close>

lemma magnetic_construct_grid3_far:
  "list_all is_fin (Da (construct grid3_far)) \<and> list_all is_fin (Db (construct grid3_far))"
proof -
  have n: "nx grid3_far = 3" "ny grid3_far = 3" "dt grid3_far = 10 ^ 30"
    by (simp_all add: grid3_far_def)
  have len: "length (Da (construct grid3_far)) = 9" "length (Db (construct grid3_far)) = 9"
    using well_formed_construct [of grid3_far] by (simp_all add: well_formed_def Let_def n)
  have "is_fin (Da (construct grid3_far) ! k) \<and> is_fin (Db (construct grid3_far) ! k)"
    if k: "k < 9" for k
  proof -
    have c: "compiled_at (construct grid3_far) k"
      using k by (intro coefficients_compiled_construct) (simp add: n)
    have "(10::real) ^ 37 / (4 * pi) \<le> 10 ^ 37 / (4 * 2)"
      using pi_ge_two by (intro divide_left_mono) simp_all
    then have b: "(10::real) ^ 37 / (4 * pi) < 2 ^ 128 - 2 ^ 103" by simp
    have "Db (construct grid3_far) ! k = Math_fround (Fin (10 ^ 37 / (4 * pi)))"
      using c k by (simp add: compiled_at_def Let_def construct_arrays n mu0_Fin)
    moreover have "- (2 ^ 128 - 2 ^ 103) < (10::real) ^ 37 / (4 * pi)"
      by (rule less_le_trans [of _ 0]) simp_all
    ultimately have "is_fin (Db (construct grid3_far) ! k)"
      using b by (simp add: is_fin_fround)
    then show ?thesis using c by (simp add: compiled_at_def Let_def)
  qed
  then show ?thesis using len by (simp add: list_all_length)
qed

lemma dipole_overflow:
  "Ez (step (addSource dipole1 (construct grid3_far))) ! 4 = NaN"
proof -
  let ?s = "addSource dipole1 (construct grid3_far)"
  let ?s1 = "updateH ?s"
  have n: "nx grid3_far = 3" "ny grid3_far = 3" "dt grid3_far = 10 ^ 30"
    "dx grid3_far = 10 ^ 40" "dy grid3_far = 10 ^ 40"
    by (simp_all add: grid3_far_def)
  have p: "params ?s = grid3_far" by (simp add: addSource_def)
  have wf: "well_formed ?s" by (intro well_formed_addSource well_formed_construct)
  have z: "zero_fields ?s"
    using zero_fields_construct [of grid3_far] by (simp add: zero_fields_def addSource_fields)
  have c1: "changes_fields ?s ?s1" by (rule updateH_changes)
  note d1 = changes_fields_D [OF c1]
  have z1: "zero_fields ?s1"
    using wf z magnetic_construct_grid3_far
    by (intro quiet_updateH_magnetic) (simp_all add: addSource_fields p n)
  have len: "length (Ez ?s1) = 9" "length (Hx ?s1) = 9" "length (Hy ?s1) = 9"
    "length (Ca ?s) = 9" "length (Cb ?s) = 9"
    using well_formed_changes_fields [OF c1] wf d1(1)
    by (simp_all add: well_formed_def Let_def p n)
  have "applySource dipole1 ?s1 = ?s1"
    using z1 len d1(1,11)
    by (subst applySource_dipole [where i = 1 and j = 1])
       (simp_all add: carrier_Fin zero_fields_def list_all_zero_update dipole1_def p n
          addSource_fields construct_arrays)
  then have s2: "applySources ?s1 = ?s1"
    using d1(9) by (simp add: applySources_def addSource_fields construct_arrays)
  have curl: "curlH ?s1 4 = Fin 0"
    using z1 len d1(1) by (intro curlH_zero) (simp_all add: zero_fields_def p n)
  have T: "pml_thickness grid3_far = 0" by (simp add: pml_thickness_def n)
  have "compiled_at (construct grid3_far) 4"
    by (rule coefficients_compiled_construct) (simp add: n)
  moreover have "sigma (construct grid3_far) ! 4 = Fin 0"
    by (simp add: sigma_construct n pml_merge_def T)
  ultimately have Ca: "Ca (construct grid3_far) ! 4 = Fin 1"
    by (simp add: compiled_at_def Let_def construct_arrays n eps0_Fin)
  have E: "Ez ?s1 ! 4 = Fin 0" using z1 len by (simp add: zero_fields_def list_all_length)
  have "Ez (step ?s) ! (1 * nx (params ?s) + 1) =
          Math_fround (rd (Ca ?s) (1 * nx (params ?s) + 1)
              * Ez (applySources ?s1) ! (1 * nx (params ?s) + 1)
            + rd (Cb ?s) (1 * nx (params ?s) + 1)
              * curlH (applySources ?s1) (1 * nx (params ?s) + 1))"
    by (rule Ez_step_interior [OF wf]) (simp_all add: p n)
  then show ?thesis
    using len by (simp add: p n s2 curl E rd_def addSource_fields Ca Cb_construct_grid3_far)
qed

subsection \<open>Field lookup\<close>

text \<open>What the lookup does guarantee: 0 for a flat index outside the arrays.\<close>

lemma getFieldAt_outside:
  assumes "well_formed s"
    and "\<lfloor>b\<rfloor> * int (nx (params s)) + \<lfloor>a\<rfloor> < 0 \<or>
         int (nx (params s) * ny (params s)) \<le> \<lfloor>b\<rfloor> * int (nx (params s)) + \<lfloor>a\<rfloor>"
  shows "getFieldAt s a b = \<lparr>FieldSample.Ez = Fin 0, FieldSample.Hx = Fin 0, FieldSample.Hy = Fin 0\<rparr>"
proof -
  have "length (Ez s) = nx (params s) * ny (params s)" "length (Hx s) = nx (params s) * ny (params s)"
    "length (Hy s) = nx (params s) * ny (params s)"
    using assms(1) by (simp_all add: well_formed_def Let_def)
  then show ?thesis
    using assms(2) by (auto simp: getFieldAt_def Let_def geti_def or_zero_def)
qed

text \<open>
  Claim C6 fails on the code: \<open>getFieldAt\<close> checks the flat index \<open>j \<sqdot> nx + i\<close> only. The column
  \<open>i = 4\<close> is outside the 3 by 3 grid, yet \<open>getFieldAt(4, 0)\<close> returns the field of the centre
  cell \<open>(1, 1)\<close>, which is 1 after two steps of the dipole, and not 0.
\<close>

theorem getFieldAt_wraps:
  "\<not> in_grid grid3 \<lfloor>4\<rfloor> \<lfloor>0\<rfloor> \<and>
   FieldSample.Ez (getFieldAt (step (step (addSource dipole1 (construct grid3)))) 4 0) = Fin 1"
proof -
  let ?s = "step (step (addSource dipole1 (construct grid3)))"
  have n: "nx grid3 = 3" "ny grid3 = 3" "dx grid3 = 1" "dy grid3 = 1" "dt grid3 = 1 / 10 ^ 9"
    by (simp_all add: grid3_def)
  have "Ez ?s ! (1 * nx grid3 + 1) =
          Math_fround (Ca (construct grid3) ! (1 * nx grid3 + 1)
            * Math_fround (Fin (amplitude dipole1 * sin (2 * pi * frequency dipole1 * dt grid3))))"
    by (rule dipole_steps(2) [where i = 1 and j = 1])
       (simp_all add: n dipole1_def finite_coefficients_grid3)
  then have E: "Ez ?s ! 4 = Fin 1"
    unfolding dipole1_quarter by (simp add: n Ca_construct_grid3)
  have "well_formed ?s"
    by (intro well_formed_step well_formed_addSource well_formed_construct)
  then have len: "length (Ez ?s) = 9" by (simp add: well_formed_def Let_def n)
  show ?thesis
    using E len by (simp add: getFieldAt_def Let_def geti_def or_zero_def in_grid_def n)
qed

end
